theory Spec2Isabelle
  imports Complex_Main "HOL-Library.Sublist"
begin

section \<open>Python values used by the transcription-output pipeline\<close>

text \<open>
  A Python \<open>str\<close> is modelled as a \<open>string\<close> whose characters are the code points
  0..255 (Latin-1); \<open>length\<close> counts code points as \<open>len\<close> does. The character classes
  below are the ones of CPython on that range: \<open>str.isspace\<close> and the regular
  expression class \<open>\s\<close> agree there, \<open>\w\<close> is \<open>str.isalnum\<close> plus the underscore,
  \<open>\d\<close> is the ASCII digits, and \<open>str.lower\<close> works character by character.

  A Python \<open>float\<close> is modelled by the rational number it denotes (finite doubles
  only). The pipeline compares time stamps and multiplies them once, by 1000 in
  \<open>format_timestamp\<close>; that product is rounded to the nearest double, as the
  multiplication of two doubles is, and overflows to infinity beyond the range.

  Exceptions are values: every function that can raise returns \<open>error + 'a\<close>.
\<close>

datatype error = AssertionError | TypeError | ValueError | OverflowError | UnknownFormat

definition is_space :: "char \<Rightarrow> bool" where
  "is_space c = (let n = (of_char c :: nat)
     in (9 \<le> n \<and> n \<le> 13) \<or> (28 \<le> n \<and> n \<le> 32) \<or> n = 133 \<or> n = 160)"

definition is_digit :: "char \<Rightarrow> bool" where
  "is_digit c = (let n = (of_char c :: nat) in 48 \<le> n \<and> n \<le> 57)"

definition is_upper :: "char \<Rightarrow> bool" where
  "is_upper c = (let n = (of_char c :: nat)
     in (65 \<le> n \<and> n \<le> 90) \<or> (192 \<le> n \<and> n \<le> 222 \<and> n \<noteq> 215))"

definition is_word :: "char \<Rightarrow> bool" where
  "is_word c = (let n = (of_char c :: nat)
     in (48 \<le> n \<and> n \<le> 57) \<or> (65 \<le> n \<and> n \<le> 90) \<or> n = 95 \<or> (97 \<le> n \<and> n \<le> 122)
        \<or> n = 170 \<or> n = 178 \<or> n = 179 \<or> n = 181 \<or> n = 185 \<or> n = 186
        \<or> n = 188 \<or> n = 189 \<or> n = 190
        \<or> (192 \<le> n \<and> n \<le> 255 \<and> n \<noteq> 215 \<and> n \<noteq> 247))"

definition lower_char :: "char \<Rightarrow> char" where
  "lower_char c = (if is_upper c then char_of ((of_char c :: nat) + 32) else c)"

definition str_lower :: "string \<Rightarrow> string" where
  "str_lower s = map lower_char s"

text \<open>\<open>s.strip()\<close>: white space removed at both ends.\<close>

definition strip_chars :: "(char \<Rightarrow> bool) \<Rightarrow> string \<Rightarrow> string" where
  "strip_chars p s = rev (dropWhile p (rev (dropWhile p s)))"

definition str_strip :: "string \<Rightarrow> string" where
  "str_strip s = strip_chars is_space s"

text \<open>\<open>sep.join(xs)\<close> for a list of strings.\<close>

fun str_join :: "string \<Rightarrow> string list \<Rightarrow> string" where
  "str_join sep [] = []"
| "str_join sep [x] = x"
| "str_join sep (x # y # ys) = x @ sep @ str_join sep (y # ys)"

text \<open>
  \<open>s.replace(old, new)\<close> for a non-empty \<open>old\<close>: the occurrences are replaced from
  the left, and the scan goes on after each replaced occurrence.
\<close>

fun str_replace :: "string \<Rightarrow> string \<Rightarrow> string \<Rightarrow> string" where
  "str_replace old new [] = []"
| "str_replace old new (c # cs) =
     (if old \<noteq> [] \<and> prefix old (c # cs)
      then new @ str_replace old new (drop (length old - 1) cs)
      else c # str_replace old new cs)"

text \<open>\<open>str(n)\<close> for a natural number, and the format specifications \<open>02d\<close>, \<open>03d\<close>.\<close>

definition digit_char :: "nat \<Rightarrow> char" where
  "digit_char d = char_of (48 + d)"

fun str_nat :: "nat \<Rightarrow> string" where
  "str_nat n = (if n < 10 then [digit_char n] else str_nat (n div 10) @ [digit_char (n mod 10)])"

declare str_nat.simps [simp del]

definition format_d :: "nat \<Rightarrow> int \<Rightarrow> string" where
  "format_d width n =
     (if n < 0
      then (let s = str_nat (nat (- n)) in CHR ''-'' # replicate (width - 1 - length s) CHR ''0'' @ s)
      else (let s = str_nat (nat n) in replicate (width - length s) CHR ''0'' @ s))"

subsection \<open>Floating point\<close>

text \<open>\<open>round(x)\<close> of a float: the nearest integer, a tie going to the even one.\<close>

definition py_round :: "rat \<Rightarrow> int" where
  "py_round x = (let f = \<lfloor>x\<rfloor>; d = x - of_int f
     in if d < 1 / 2 then f else if 1 / 2 < d then f + 1 else if even f then f else f + 1)"

text \<open>
  The double nearest to a rational that is not negative: 53 significant bits, a tie
  going to the even significand, subnormal below \<open>2 ^ -1022\<close>. \<open>None\<close> is the
  overflow to infinity. \<open>floor_log2 x\<close> is the exponent \<open>e\<close> with
  \<open>2 ^ e \<le> x < 2 ^ (e + 1)\<close>, for \<open>0 < x\<close>.
\<close>

fun bitlen :: "nat \<Rightarrow> nat" where
  "bitlen n = (if n = 0 then 0 else Suc (bitlen (n div 2)))"

declare bitlen.simps [simp del]

definition pow2 :: "int \<Rightarrow> rat" where
  "pow2 e = (if 0 \<le> e then 2 ^ nat e else 1 / 2 ^ nat (- e))"

definition floor_log2 :: "rat \<Rightarrow> int" where
  "floor_log2 x =
     (if 1 \<le> x then int (bitlen (nat \<lfloor>x\<rfloor>)) - 1
      else (let y = 1 / x; k = int (bitlen (nat \<lfloor>y\<rfloor>)) - 1
            in if pow2 k = y then - k else - k - 1))"

definition double_of :: "rat \<Rightarrow> rat option" where
  "double_of x =
     (if x \<le> 0 then Some 0
      else (let e = max (floor_log2 x) (- 1022);
                u = pow2 (e - 52);
                n = py_round (x / u)
            in if 1023 < e \<or> (e = 1023 \<and> 2 ^ 53 \<le> n) then None
               else Some (of_int n * u)))"

section \<open>Timestamp formatter\<close>

text \<open>
  \<open>format_timestamp(seconds, always_include_hours, fractionalSeperator)\<close>,
  \<^verbatim>\<open>src/utils.py\<close> lines 37-51. The assertion is the first branch; \<open>round\<close>
  raises \<open>OverflowError\<close> on an infinite product.
\<close>

definition format_timestamp :: "rat \<Rightarrow> bool \<Rightarrow> string \<Rightarrow> error + string" where
  "format_timestamp seconds always_include_hours fractionalSeperator =
     (if \<not> 0 \<le> seconds then Inl AssertionError
      else case double_of (seconds * 1000) of
        None \<Rightarrow> Inl OverflowError
      | Some product \<Rightarrow>
         (let milliseconds = py_round product;
              hours = milliseconds div 3600000;
              milliseconds = milliseconds - hours * 3600000;
              minutes = milliseconds div 60000;
              milliseconds = milliseconds - minutes * 60000;
              seconds = milliseconds div 1000;
              milliseconds = milliseconds - seconds * 1000;
              hours_marker = (if always_include_hours \<or> 0 < hours
                              then format_d 2 hours @ '':'' else [])
          in Inr (hours_marker @ format_d 2 minutes @ '':'' @ format_d 2 seconds
                  @ fractionalSeperator @ format_d 3 milliseconds)))"

section \<open>Caption line wrapper\<close>

subsection \<open>The library function \<open>textwrap.wrap\<close>\<close>

text \<open>
  \<open>textwrap.wrap(text, width, tabsize=4)\<close> of the Python standard library, with the
  other options at their defaults (\<open>expand_tabs\<close>, \<open>replace_whitespace\<close>,
  \<open>drop_whitespace\<close>, \<open>break_long_words\<close>). Tabs are expanded, every character of
  \<^verbatim>\<open>'\t\n\x0b\x0c\r '\<close> becomes a space, the text is cut into chunks and the chunks
  are packed greedily into lines.

  The chunks are the matches of the regular expression \<open>wordsep_re\<close> of the library,
  tried at each position in this order: a run of white space; a run of two or more
  hyphens after a word or punctuation character and before a word character; the
  shortest run of other characters that ends after a hyphen between letters, at white
  space or the end of the text, or before such a run of hyphens. \<open>before\<close> holds the
  characters already read, the last one first, for the look-behind.
\<close>

definition NL :: char where "NL = CHR 0x0A"
definition CR :: char where "CR = CHR 0x0D"
definition TAB :: char where "TAB = CHR 0x09"
definition SP :: char where "SP = CHR 0x20"
definition DQ :: char where "DQ = CHR 0x22"

definition tw_space :: "char \<Rightarrow> bool" where
  "tw_space c = (let n = (of_char c :: nat) in (9 \<le> n \<and> n \<le> 13) \<or> n = 32)"

fun expandtabs :: "nat \<Rightarrow> nat \<Rightarrow> string \<Rightarrow> string" where
  "expandtabs tabsize col [] = []"
| "expandtabs tabsize col (c # cs) =
     (if c = TAB
      then (if 0 < tabsize
            then replicate (tabsize - col mod tabsize) SP
                 @ expandtabs tabsize (col + (tabsize - col mod tabsize)) cs
            else expandtabs tabsize col cs)
      else if c = NL \<or> c = CR then c # expandtabs tabsize 0 cs
      else c # expandtabs tabsize (Suc col) cs)"

definition munge_whitespace :: "string \<Rightarrow> string" where
  "munge_whitespace text = map (\<lambda>c. if tw_space c then SP else c) (expandtabs 4 0 text)"

lemma length_dropWhile_less [termination_simp]:
  "length (dropWhile P xs) < Suc (length xs)"
  by (simp add: length_dropWhile_le le_imp_less_Suc)

definition letter :: "char \<Rightarrow> bool" where
  "letter c = (is_word c \<and> \<not> is_digit c)"

definition word_punct :: "char \<Rightarrow> bool" where
  "word_punct c = (is_word c \<or> c \<in> set ''!&.,?'' \<or> c = DQ \<or> c = CHR 0x27)"

definition hyphens_then_word :: "string \<Rightarrow> bool" where
  "hyphens_then_word rest =
     (let k = length (takeWhile (\<lambda>c. c = CHR ''-'') rest)
      in 2 \<le> k \<and> (case drop k rest of [] \<Rightarrow> False | c # cs \<Rightarrow> is_word c))"

definition em_dash_at :: "string \<Rightarrow> string \<Rightarrow> bool" where
  "em_dash_at before rest =
     ((case before of [] \<Rightarrow> False | b # bs \<Rightarrow> word_punct b) \<and> hyphens_then_word rest)"

definition hyphen_break :: "string \<Rightarrow> string \<Rightarrow> bool" where
  "hyphen_break before rest =
     (case rest of
        [] \<Rightarrow> False
      | c # r \<Rightarrow>
          c = CHR ''-''
          \<and> ((case before of b1 # b2 # bs \<Rightarrow> letter b1 \<and> letter b2 | _ \<Rightarrow> False)
              \<or> (case before of
                    b1 # b2 # b3 # bs \<Rightarrow> letter b1 \<and> b2 = CHR ''-'' \<and> letter b3
                  | _ \<Rightarrow> False))
          \<and> ((case r of c1 # c2 # c3 # cs \<Rightarrow> letter c1 \<and> c2 = CHR ''-'' \<and> letter c3
                        | _ \<Rightarrow> False)
              \<or> (case r of c1 # c2 # cs \<Rightarrow> letter c1 \<and> letter c2 | _ \<Rightarrow> False)))"

fun word_scan :: "string \<Rightarrow> string \<Rightarrow> string \<Rightarrow> string \<times> string" where
  "word_scan before acc [] = (acc, [])"
| "word_scan before acc (c # r) =
     (if hyphen_break before (c # r) then (acc @ [c], r)
      else if tw_space c then (acc, c # r)
      else if em_dash_at before (c # r) then (acc, c # r)
      else word_scan (c # before) (acc @ [c]) r)"

lemma word_scan_length: "length (snd (word_scan before acc rest)) \<le> length rest"
proof (induction rest arbitrary: before acc)
  case Nil
  show ?case by simp
next
  case (Cons c r)
  have "length (snd (word_scan (c # before) (acc @ [c]) r)) \<le> length r" by (rule Cons.IH)
  then show ?case by auto
qed

function split_from :: "string \<Rightarrow> string \<Rightarrow> string list" where
  "split_from before [] = []"
| "split_from before (c # r) =
     (if tw_space c
      then (c # takeWhile tw_space r)
           # split_from (rev (c # takeWhile tw_space r) @ before) (dropWhile tw_space r)
      else if em_dash_at before (c # r)
      then (c # takeWhile (\<lambda>x. x = CHR ''-'') r)
           # split_from (rev (c # takeWhile (\<lambda>x. x = CHR ''-'') r) @ before)
               (dropWhile (\<lambda>x. x = CHR ''-'') r)
      else fst (word_scan (c # before) [c] r)
           # split_from (rev (fst (word_scan (c # before) [c] r)) @ before)
               (snd (word_scan (c # before) [c] r)))"
  by pat_completeness auto
termination
proof (relation "measure (\<lambda>(before, rest). length rest)")
  show "wf (measure (\<lambda>(before, rest). length rest))" by simp
next
  fix before c r
  show "((rev (c # takeWhile tw_space r) @ before, dropWhile tw_space r), before, c # r)
        \<in> measure (\<lambda>(before, rest). length rest)"
    by (simp add: length_dropWhile_less)
next
  fix before c r
  show "((rev (c # takeWhile (\<lambda>x. x = CHR ''-'') r) @ before,
          dropWhile (\<lambda>x. x = CHR ''-'') r), before, c # r)
        \<in> measure (\<lambda>(before, rest). length rest)"
    by (simp add: length_dropWhile_less)
next
  fix before c r
  show "((rev (fst (word_scan (c # before) [c] r)) @ before,
          snd (word_scan (c # before) [c] r)), before, c # r)
        \<in> measure (\<lambda>(before, rest). length rest)"
    using word_scan_length [of "c # before" "[c]" r] by simp
qed

definition split_chunks :: "string \<Rightarrow> string list" where
  "split_chunks text = split_from [] text"

text \<open>The inner loop of \<open>_wrap_chunks\<close>: chunks are taken while they fit.\<close>

fun fill_line :: "nat \<Rightarrow> nat \<Rightarrow> string list \<Rightarrow> string list \<times> string list" where
  "fill_line width cur_len [] = ([], [])"
| "fill_line width cur_len (c # cs) =
     (if cur_len + length c \<le> width
      then (let r = fill_line width (cur_len + length c) cs in (c # fst r, snd r))
      else ([], c # cs))"

text \<open>
  \<open>_handle_long_word\<close>: where to cut a chunk that is longer than the width. The cut is
  after the last hyphen within the space left, when there is one that is preceded by
  a character other than a hyphen; else at the space left.
\<close>

definition rfind_hyphen :: "string \<Rightarrow> nat option" where
  "rfind_hyphen s =
     (case filter (\<lambda>i. s ! i = CHR ''-'') (rev [0..<length s]) of
        [] \<Rightarrow> None | i # rest \<Rightarrow> Some i)"

definition long_word_end :: "nat \<Rightarrow> string \<Rightarrow> nat" where
  "long_word_end space_left chunk =
     (if space_left < length chunk
      then (case rfind_hyphen (take space_left chunk) of
              None \<Rightarrow> space_left
            | Some hyphen \<Rightarrow>
                if 0 < hyphen \<and> (\<exists>c\<in>set (take hyphen chunk). c \<noteq> CHR ''-'')
                then hyphen + 1 else space_left)
      else space_left)"

text \<open>
  One round of the outer loop: a leading blank chunk is dropped on every line but the
  first, the line is filled, a chunk longer than the width is cut, and a blank chunk
  at the end of the line is dropped. The result is the line and the chunks left.
\<close>

definition wrap_step :: "nat \<Rightarrow> string list \<Rightarrow> bool \<Rightarrow> string list \<times> string list" where
  "wrap_step width chunks have_lines =
     (let chunks1 = (if str_strip (hd chunks) = [] \<and> have_lines then tl chunks else chunks);
          r = fill_line width 0 chunks1;
          cur_line = fst r;
          chunks2 = snd r;
          cur_len = sum_list (map length cur_line);
          space_left = (if width < 1 then 1 else width - cur_len);
          long = (chunks2 \<noteq> [] \<and> width < length (hd chunks2));
          cut = (if long then long_word_end space_left (hd chunks2) else 0);
          cur_line2 = (if long then cur_line @ [take cut (hd chunks2)] else cur_line);
          chunks3 = (if long then drop cut (hd chunks2) # tl chunks2 else chunks2);
          cur_line3 = (if cur_line2 \<noteq> [] \<and> str_strip (last cur_line2) = []
                       then butlast cur_line2 else cur_line2)
      in (cur_line3, chunks3))"

definition chunks_size :: "string list \<Rightarrow> nat" where
  "chunks_size chunks = sum_list (map length chunks) + length chunks"

lemma fill_line_size: "chunks_size (snd (fill_line width n cs)) \<le> chunks_size cs"
proof (induction cs arbitrary: n)
  case Nil
  show ?case by simp
next
  case (Cons c cs)
  have "chunks_size (snd (fill_line width (n + length c) cs)) \<le> chunks_size cs"
    by (rule Cons.IH)
  then show ?case by (auto simp: chunks_size_def Let_def)
qed

lemma fill_line_none:
  "fst (fill_line width n cs) = [] \<Longrightarrow> cs \<noteq> [] \<Longrightarrow>
   snd (fill_line width n cs) = cs \<and> width < n + length (hd cs)"
  by (cases cs) (auto simp: Let_def split: if_splits)

lemma fill_line_some:
  "fst (fill_line width n cs) \<noteq> [] \<Longrightarrow> chunks_size (snd (fill_line width n cs)) < chunks_size cs"
proof (cases cs)
  case Nil
  then show "fst (fill_line width n cs) \<noteq> [] \<Longrightarrow> ?thesis" by simp
next
  case (Cons c cs')
  assume "fst (fill_line width n cs) \<noteq> []"
  with Cons have "snd (fill_line width n cs) = snd (fill_line width (n + length c) cs')"
    by (auto simp: Let_def split: if_splits)
  moreover have "chunks_size (snd (fill_line width (n + length c) cs')) \<le> chunks_size cs'"
    by (rule fill_line_size)
  ultimately show ?thesis using Cons by (simp add: chunks_size_def)
qed

lemma chunks_size_cut:
  "cs \<noteq> [] \<Longrightarrow> chunks_size (drop k (hd cs) # tl cs) \<le> chunks_size cs"
  by (cases cs) (auto simp: chunks_size_def)

lemma chunks_size_cut_less:
  "cs \<noteq> [] \<Longrightarrow> 0 < k \<Longrightarrow> hd cs \<noteq> [] \<Longrightarrow> chunks_size (drop k (hd cs) # tl cs) < chunks_size cs"
  by (cases cs) (auto simp: chunks_size_def)

lemma chunks_size_tl: "cs \<noteq> [] \<Longrightarrow> chunks_size (tl cs) < chunks_size cs"
  by (cases cs) (auto simp: chunks_size_def)

lemma long_word_end_pos: "0 < space_left \<Longrightarrow> 0 < long_word_end space_left chunk"
  by (simp add: long_word_end_def split: option.splits)

lemma wrap_step_size:
  assumes "chunks \<noteq> []"
  shows "chunks_size (snd (wrap_step width chunks have_lines)) < chunks_size chunks"
proof -
  define chunks1 where "chunks1 = (if str_strip (hd chunks) = [] \<and> have_lines then tl chunks else chunks)"
  define chunks2 where "chunks2 = snd (fill_line width 0 chunks1)"
  define cur_line where "cur_line = fst (fill_line width 0 chunks1)"
  define space_left where
    "space_left = (if width < 1 then 1 else width - sum_list (map length cur_line))"
  define long where "long = (chunks2 \<noteq> [] \<and> width < length (hd chunks2))"
  define cut where "cut = (if long then long_word_end space_left (hd chunks2) else 0)"
  define chunks3 where "chunks3 = (if long then drop cut (hd chunks2) # tl chunks2 else chunks2)"
  have res: "snd (wrap_step width chunks have_lines) = chunks3"
    by (simp add: wrap_step_def Let_def chunks3_def cut_def long_def space_left_def cur_line_def
        chunks2_def chunks1_def)
  have s1: "chunks_size chunks1 \<le> chunks_size chunks"
    using assms chunks_size_tl [of chunks] by (auto simp: chunks1_def)
  have s2: "chunks_size chunks2 \<le> chunks_size chunks1"
    unfolding chunks2_def by (rule fill_line_size)
  have s3: "chunks_size chunks3 \<le> chunks_size chunks2"
    using chunks_size_cut [of chunks2 cut] by (auto simp: chunks3_def long_def)
  show ?thesis
  proof (cases "chunks1 = chunks")
    case False
    then have "chunks_size chunks1 < chunks_size chunks"
      using assms chunks_size_tl [of chunks] by (auto simp: chunks1_def split: if_splits)
    with s2 s3 res show ?thesis by simp
  next
    case same: True
    show ?thesis
    proof (cases "cur_line = []")
      case False
      then have "chunks_size chunks2 < chunks_size chunks1"
        unfolding chunks2_def cur_line_def by (rule fill_line_some)
      with s3 same res show ?thesis by simp
    next
      case True
      with assms same have n: "chunks2 = chunks" "width < length (hd chunks)"
        using fill_line_none [of width 0 chunks1] by (auto simp: chunks2_def cur_line_def)
      with assms have l: long by (simp add: long_def)
      have "0 < space_left" using True by (simp add: space_left_def)
      then have "0 < cut" using l by (simp add: cut_def long_word_end_pos)
      moreover have "hd chunks2 \<noteq> []" using n by auto
      ultimately have "chunks_size chunks3 < chunks_size chunks2"
        using chunks_size_cut_less [of chunks2 cut] l n assms by (simp add: chunks3_def)
      with n res show ?thesis by simp
    qed
  qed
qed

function wrap_chunks :: "nat \<Rightarrow> string list \<Rightarrow> string list \<Rightarrow> string list" where
  "wrap_chunks width chunks lines =
     (if chunks = [] then lines
      else (let r = wrap_step width chunks (lines \<noteq> [])
            in wrap_chunks width (snd r)
                 (if fst r \<noteq> [] then lines @ [concat (fst r)] else lines)))"
  by pat_completeness auto
termination
  by (relation "measure (\<lambda>(width, chunks, lines). chunks_size chunks)")
     (auto simp: wrap_step_size)

declare wrap_chunks.simps [simp del]

definition textwrap_wrap :: "string \<Rightarrow> int \<Rightarrow> error + string list" where
  "textwrap_wrap text width =
     (if width \<le> 0 then Inl ValueError
      else Inr (wrap_chunks (nat width) (split_chunks (munge_whitespace text)) []))"

subsection \<open>Flat-text wrap\<close>

text \<open>
  \<open>process_text\<close>, \<^verbatim>\<open>src/utils.py\<close> lines 359-364. The library call
  \<open>textwrap.wrap(text, width=maxLineWidth, tabsize=4)\<close> is the parameter \<open>wrap\<close>, here
  and in every function that reaches \<open>process_text\<close>.
\<close>

definition no_width :: "int option \<Rightarrow> bool" where
  "no_width maxLineWidth = (case maxLineWidth of None \<Rightarrow> True | Some w \<Rightarrow> w < 0)"

definition process_text ::
  "(string \<Rightarrow> int \<Rightarrow> error + string list) \<Rightarrow> string \<Rightarrow> int option \<Rightarrow> error + string" where
  "process_text wrap text maxLineWidth =
     (if no_width maxLineWidth then Inr text
      else case wrap text (the maxLineWidth) of
             Inl e \<Rightarrow> Inl e
           | Inr lines \<Rightarrow> Inr (str_join [NL] lines))"

subsection \<open>Token wrap\<close>

text \<open>
  \<open>__join_words\<close>, \<^verbatim>\<open>src/utils.py\<close> lines 328-357. An entry is a string or a
  dictionary with the fields \<open>word\<close> and \<open>length\<close>. \<open>" ".join(words)\<close> raises
  \<open>TypeError\<close> on an entry that is not a string.
\<close>

datatype entry = Str string | Dict string int

fun entry_word :: "entry \<Rightarrow> string" where
  "entry_word (Str w) = w"
| "entry_word (Dict w l) = w"

fun entry_length :: "entry \<Rightarrow> int" where
  "entry_length (Str w) = int (length w)"
| "entry_length (Dict w l) = l"

fun str_items :: "entry list \<Rightarrow> error + string list" where
  "str_items [] = Inr []"
| "str_items (Str w # es) = (case str_items es of Inl e \<Rightarrow> Inl e | Inr ws \<Rightarrow> Inr (w # ws))"
| "str_items (Dict w l # es) = Inl TypeError"

fun join_words_loop ::
  "int \<Rightarrow> entry list \<Rightarrow> string list \<Rightarrow> string \<Rightarrow> int \<Rightarrow> string list \<times> string" where
  "join_words_loop maxLineWidth [] lines current_line current_length = (lines, current_line)"
| "join_words_loop maxLineWidth (e # es) lines current_line current_length =
     (let word = entry_word e; word_length = entry_length e
      in if 0 < current_length \<and> maxLineWidth < current_length + word_length
         then join_words_loop maxLineWidth es (lines @ [current_line]) word word_length
         else join_words_loop maxLineWidth es lines (current_line @ word)
                (current_length + word_length))"

definition join_words :: "entry list \<Rightarrow> int option \<Rightarrow> error + string" where
  "join_words words maxLineWidth =
     (if no_width maxLineWidth
      then (case str_items words of Inl e \<Rightarrow> Inl e | Inr ws \<Rightarrow> Inr (str_join [SP] ws))
      else (let r = join_words_loop (the maxLineWidth) words [] [] 0;
                lines = (if 0 < length (snd r) then fst r @ [snd r] else fst r)
            in Inr (str_join [NL] lines)))"

section \<open>Caption synthesizer\<close>

text \<open>
  A segment and a word are dictionaries whose fields are read by name; the model
  gives every segment the fields \<open>start\<close>, \<open>end\<close> and \<open>text\<close>, a word list (empty
  when the key \<open>words\<close> is absent) and an optional \<open>longest_speaker\<close> (\<open>None\<close> when
  the key is absent or holds \<open>None\<close>).
\<close>

record word_info =
  word_start :: rat
  word_end :: rat
  word_text :: string

record segment =
  seg_start :: rat
  seg_end :: rat
  seg_text :: string
  seg_words :: "word_info list"
  seg_longest_speaker :: "string option"

record cue =
  cue_start :: rat
  cue_end :: rat
  cue_text :: string

text \<open>
  \<open>re.sub(r"^(\s*)(.*)$", r"\1<u>\2</u>", word)\<close>. The pattern matches at the start
  of the word only; \<open>\s*\<close> takes leading white space, as much as possible first,
  \<open>.*\<close> takes the characters up to the next line break, and \<open>$\<close> accepts the end of
  the word or a single final line break. Without a match the word is unchanged.
\<close>

definition match_at :: "nat \<Rightarrow> string \<Rightarrow> string option" where
  "match_at j word =
     (let rest = drop j word;
          body = takeWhile (\<lambda>c. c \<noteq> NL) rest;
          tail = dropWhile (\<lambda>c. c \<noteq> NL) rest
      in if tail = [] \<or> tail = [NL]
         then Some (take j word @ ''<u>'' @ body @ ''</u>'' @ tail) else None)"

fun try_match :: "nat \<Rightarrow> string \<Rightarrow> string option" where
  "try_match 0 word = match_at 0 word"
| "try_match (Suc j) word =
     (case match_at (Suc j) word of Some r \<Rightarrow> Some r | None \<Rightarrow> try_match j word)"

definition highlight_word :: "string \<Rightarrow> string" where
  "highlight_word word =
     (case try_match (length (takeWhile is_space word)) word of
        None \<Rightarrow> word | Some r \<Rightarrow> r)"

text \<open>The list comprehension of lines 299-307: the entries of the highlight cue of word \<open>i\<close>.\<close>

definition highlight_entries :: "nat \<Rightarrow> string list \<Rightarrow> entry list" where
  "highlight_entries i text_words =
     map (\<lambda>(j, word). Dict (if j = i then highlight_word word else word) (int (length word)))
       (enumerate 0 text_words)"

text \<open>
  \<open>__subtitle_preprocessor_iterator\<close>, \<^verbatim>\<open>src/utils.py\<close> lines 238-326. The generator
  is modelled by the cues it yields, the exception that ends it (if any), and the
  segment as the generator leaves it: \<open>words.insert\<close> changes the word list of the
  segment itself. The loop over the words (lines 282-310) returns the cursor (\<open>last\<close> in the source) as well.
\<close>

fun highlight_loop ::
  "int option \<Rightarrow> string \<Rightarrow> string list \<Rightarrow> nat \<Rightarrow> word_info list \<Rightarrow> rat
   \<Rightarrow> cue list \<times> error option \<times> rat" where
  "highlight_loop maxLineWidth subtitle_text text_words i [] cursor = ([], None, cursor)"
| "highlight_loop maxLineWidth subtitle_text text_words i (this_word # ws) cursor =
     (let start = word_start this_word;
          stop = word_end this_word;
          filler = (if cursor \<noteq> start
                    then [\<lparr>cue_start = cursor, cue_end = start, cue_text = subtitle_text\<rparr>]
                    else [])
      in case join_words (highlight_entries i text_words) maxLineWidth of
           Inl e \<Rightarrow> (filler, Some e, cursor)
         | Inr text \<Rightarrow>
            (let r = highlight_loop maxLineWidth subtitle_text text_words (Suc i) ws stop
             in (filler @ [\<lparr>cue_start = start, cue_end = stop, cue_text = text\<rparr>] @ fst r,
                 snd r)))"

definition segment_cues ::
  "(string \<Rightarrow> int \<Rightarrow> error + string list) \<Rightarrow> int option \<Rightarrow> bool \<Rightarrow> segment \<Rightarrow> segment \<times> cue list \<times> error option" where
  "segment_cues wrap maxLineWidth highlight_words segment =
     (let words = seg_words segment;
          segment_longest_speaker = seg_longest_speaker segment
      in if length words = 0
         then (if no_width maxLineWidth \<and> segment_longest_speaker = None
               then (segment, [\<lparr>cue_start = seg_start segment, cue_end = seg_end segment,
                                cue_text = seg_text segment\<rparr>], None)
               else (let text = str_strip (seg_text segment);
                         text = (case segment_longest_speaker of
                                   None \<Rightarrow> text
                                 | Some speaker \<Rightarrow> ''('' @ speaker @ '') '' @ text)
                     in case process_text wrap text maxLineWidth of
                          Inl e \<Rightarrow> (segment, [], Some e)
                        | Inr wrapped \<Rightarrow>
                            (segment, [\<lparr>cue_start = seg_start segment, cue_end = seg_end segment,
                                        cue_text = wrapped\<rparr>], None)))
         else (let subtitle_start = seg_start segment;
                   subtitle_end = seg_end segment;
                   words = (case segment_longest_speaker of
                              None \<Rightarrow> words
                            | Some speaker \<Rightarrow>
                                \<lparr>word_start = subtitle_start, word_end = subtitle_start,
                                 word_text = ''('' @ speaker @ '')''\<rparr> # words);
                   segment = segment\<lparr>seg_words := words\<rparr>;
                   text_words = map word_text words
               in case join_words (map Str text_words) maxLineWidth of
                    Inl e \<Rightarrow> (segment, [], Some e)
                  | Inr subtitle_text \<Rightarrow>
                      (if highlight_words
                       then (let r = highlight_loop maxLineWidth subtitle_text text_words 0
                                       words subtitle_start;
                                 cursor = snd (snd r)
                             in case fst (snd r) of
                                  Some e \<Rightarrow> (segment, fst r, Some e)
                                | None \<Rightarrow>
                                    (segment,
                                     fst r @ (if cursor \<noteq> subtitle_end
                                              then [\<lparr>cue_start = cursor, cue_end = subtitle_end,
                                                     cue_text = subtitle_text\<rparr>]
                                              else []),
                                     None))
                       else (segment, [\<lparr>cue_start = subtitle_start, cue_end = subtitle_end,
                                        cue_text = subtitle_text\<rparr>], None))))"

fun subtitle_preprocessor_iterator ::
  "(string \<Rightarrow> int \<Rightarrow> error + string list) \<Rightarrow> segment list \<Rightarrow> int option \<Rightarrow> bool \<Rightarrow> segment list \<times> cue list \<times> error option" where
  "subtitle_preprocessor_iterator wrap [] maxLineWidth highlight_words = ([], [], None)"
| "subtitle_preprocessor_iterator wrap (segment # transcript) maxLineWidth highlight_words =
     (let r = segment_cues wrap maxLineWidth highlight_words segment
      in case snd (snd r) of
           Some e \<Rightarrow> (fst r # transcript, fst (snd r), Some e)
         | None \<Rightarrow>
            (let rs = subtitle_preprocessor_iterator wrap transcript maxLineWidth highlight_words
             in (fst r # fst rs, fst (snd r) @ fst (snd rs), snd (snd rs))))"

section \<open>Format renderers\<close>

text \<open>
  The renderers print into a file object; the model returns what was written. A
  renderer that consumes the caption synthesizer returns the transcript as the
  synthesizer leaves it, too. A cue is written as soon as it is yielded, so an
  exception of the renderer at a cue comes before an exception that ends the
  generator later. After an exception the model keeps neither the file nor the
  transcript.
\<close>

text \<open>\<open>write_srt\<close>, \<^verbatim>\<open>src/utils.py\<close> lines 210-236; the loop starts at index 1.\<close>

fun write_srt_loop :: "nat \<Rightarrow> cue list \<Rightarrow> string \<Rightarrow> error + string" where
  "write_srt_loop i [] file = Inr file"
| "write_srt_loop i (segment # iterator) file =
     (let text = str_replace ''-->'' ''->'' (cue_text segment)
      in case format_timestamp (cue_start segment) True '','' of
           Inl e \<Rightarrow> Inl e
         | Inr s \<Rightarrow>
            (case format_timestamp (cue_end segment) True '','' of
               Inl e \<Rightarrow> Inl e
             | Inr t \<Rightarrow>
                write_srt_loop (Suc i) iterator
                  (file @ str_nat i @ [NL] @ s @ '' --> '' @ t @ [NL] @ text @ [NL] @ [NL])))"

definition write_srt ::
  "(string \<Rightarrow> int \<Rightarrow> error + string list) \<Rightarrow> segment list \<Rightarrow> int option \<Rightarrow> bool \<Rightarrow> error + (segment list \<times> string)" where
  "write_srt wrap transcript maxLineWidth highlight_words =
     (let r = subtitle_preprocessor_iterator wrap transcript maxLineWidth highlight_words
      in case write_srt_loop 1 (fst (snd r)) [] of
           Inl e \<Rightarrow> Inl e
         | Inr file \<Rightarrow> (case snd (snd r) of Some e \<Rightarrow> Inl e | None \<Rightarrow> Inr (fst r, file)))"

text \<open>\<open>write_vtt\<close>, \<^verbatim>\<open>src/utils.py\<close> lines 190-208.\<close>

fun write_vtt_loop :: "cue list \<Rightarrow> string \<Rightarrow> error + string" where
  "write_vtt_loop [] file = Inr file"
| "write_vtt_loop (segment # iterator) file =
     (let text = str_replace ''-->'' ''->'' (cue_text segment)
      in case format_timestamp (cue_start segment) False ''.'' of
           Inl e \<Rightarrow> Inl e
         | Inr s \<Rightarrow>
            (case format_timestamp (cue_end segment) False ''.'' of
               Inl e \<Rightarrow> Inl e
             | Inr t \<Rightarrow>
                write_vtt_loop iterator (file @ s @ '' --> '' @ t @ [NL] @ text @ [NL] @ [NL])))"

definition write_vtt ::
  "(string \<Rightarrow> int \<Rightarrow> error + string list) \<Rightarrow> segment list \<Rightarrow> int option \<Rightarrow> bool \<Rightarrow> error + (segment list \<times> string)" where
  "write_vtt wrap transcript maxLineWidth highlight_words =
     (let r = subtitle_preprocessor_iterator wrap transcript maxLineWidth highlight_words
      in case write_vtt_loop (fst (snd r)) (''WEBVTT'' @ [NL] @ [NL]) of
           Inl e \<Rightarrow> Inl e
         | Inr file \<Rightarrow> (case snd (snd r) of Some e \<Rightarrow> Inl e | None \<Rightarrow> Inr (fst r, file)))"

text \<open>
  \<open>write_html\<close>, \<^verbatim>\<open>src/utils.py\<close> lines 58-188. \<open>re.search\<close> raises \<open>TypeError\<close> when
  its second argument is \<open>None\<close>; on a string it finds the first \<open>SPEAKER_\<close> that is
  followed by a digit, and group 1 is the run of digits there.
\<close>

definition css :: string where
  "css = concat [
    [] @ [NL],
    ''      body {'' @ [NL],
    ''        color-scheme: light dark;'' @ [NL],
    ''        color: #ffffffde;'' @ [NL],
    ''        background-color: #242424;'' @ [NL],
    ''      }'' @ [NL],
    ''      '' @ [NL],
    ''      span.timestamp {'' @ [NL],
    ''        font-family: monospace;'' @ [NL],
    ''      }'' @ [NL],
    ''      '' @ [NL],
    ''      div.segment {'' @ [NL],
    ''        display: flex;'' @ [NL],
    ''        align-items: center;'' @ [NL],
    ''        gap: 1rem;'' @ [NL],
    ''        text-align: left;'' @ [NL],
    ''      }'' @ [NL],
    ''      '' @ [NL],
    ''      .speaker.s00 {'' @ [NL],
    ''        color: #59ffa1;'' @ [NL],
    ''      }'' @ [NL],
    ''      '' @ [NL],
    ''      .speaker.s01 {'' @ [NL],
    ''        color: #597aff;'' @ [NL],
    ''      }'' @ [NL],
    ''      '' @ [NL],
    ''      .speaker.s02 {'' @ [NL],
    ''        color: #ff9595;'' @ [NL],
    ''      }'' @ [NL],
    ''      '' @ [NL],
    ''      .speaker.s03 {'' @ [NL],
    ''        color: #e29b16;'' @ [NL],
    ''      }'' @ [NL],
    ''      '' @ [NL],
    ''      .speaker.s04 {'' @ [NL],
    ''        color: #e29b16;'' @ [NL],
    ''      }'' @ [NL],
    ''      '' @ [NL],
    ''      .speaker.s05 {'' @ [NL],
    ''        color: #8316e2;'' @ [NL],
    ''      }'' @ [NL],
    ''      '' @ [NL],
    ''      .speaker.s06 {'' @ [NL],
    ''        color: #8316e2;'' @ [NL],
    ''      }'' @ [NL],
    ''      '' @ [NL],
    ''      .speaker.s07 {'' @ [NL],
    ''        color: #16e29b;'' @ [NL],
    ''      }'' @ [NL],
    ''      '' @ [NL],
    ''      .speaker.s08 {'' @ [NL],
    ''        color: #e23f16;'' @ [NL],
    ''      }'' @ [NL],
    ''      '' @ [NL],
    ''      .speaker.s09 {'' @ [NL],
    ''        color: #e23f16;'' @ [NL],
    ''      }'' @ [NL],
    ''      '' @ [NL],
    ''      .speaker.s10 {'' @ [NL],
    ''        color: #16bae2;'' @ [NL],
    ''      }'' @ [NL],
    ''      '' @ [NL],
    ''      .speaker.s11 {'' @ [NL],
    ''        color: #a9e216;'' @ [NL],
    ''      }'' @ [NL],
    ''      '' @ [NL],
    ''      .speaker.s12 {'' @ [NL],
    ''        color: #1676e2;'' @ [NL],
    ''      }'' @ [NL],
    ''      '' @ [NL],
    ''      .speaker.s13 {'' @ [NL],
    ''        color: #163fe2;'' @ [NL],
    ''      }'' @ [NL],
    ''      '' @ [NL],
    ''      .speaker.s14 {'' @ [NL],
    ''        color: #16bae2;'' @ [NL],
    ''      }'' @ [NL],
    ''      '' @ [NL],
    ''      .speaker.s15 {'' @ [NL],
    ''        color: #e2165e;'' @ [NL],
    ''      }'' @ [NL],
    ''      '' @ [NL],
    ''      .speaker.s16 {'' @ [NL],
    ''        color: #e23516;'' @ [NL],
    ''      }'' @ [NL],
    ''      '' @ [NL],
    ''      .speaker.s17 {'' @ [NL],
    ''        color: #16e287;'' @ [NL],
    ''      }'' @ [NL],
    ''      '' @ [NL],
    ''      .speaker.s18 {'' @ [NL],
    ''        color: #16bae2;'' @ [NL],
    ''      }'' @ [NL],
    ''      '' @ [NL],
    ''      .speaker.s19 {'' @ [NL],
    ''        color: #e2a216;'' @ [NL],
    ''      }'' @ [NL],
    ''    '']"

fun search_speaker :: "string \<Rightarrow> string option" where
  "search_speaker [] = None"
| "search_speaker (c # cs) =
     (if prefix ''SPEAKER_'' (c # cs) \<and> takeWhile is_digit (drop 8 (c # cs)) \<noteq> []
      then Some (takeWhile is_digit (drop 8 (c # cs)))
      else search_speaker cs)"

definition re_search_speaker :: "string option \<Rightarrow> error + string option" where
  "re_search_speaker s = (case s of None \<Rightarrow> Inl TypeError | Some t \<Rightarrow> Inr (search_speaker t))"

definition html_segment :: "string \<Rightarrow> string \<Rightarrow> string \<Rightarrow> string" where
  "html_segment timestamp speakerid text =
     [TAB, TAB, TAB] @ ''<div class='' @ [DQ] @ ''segment'' @ [DQ] @ ''>'' @ [NL]
     @ [TAB, TAB] @ ''<span class='' @ [DQ] @ ''timestamp'' @ [DQ] @ ''>'' @ timestamp
     @ ''</span>'' @ [NL]
     @ [TAB, TAB, TAB, TAB] @ ''<span class='' @ [DQ] @ ''speaker s'' @ speakerid @ [DQ] @ ''>''
     @ speakerid @ ''</span>'' @ [NL]
     @ [TAB, TAB, TAB, TAB] @ ''<p class='' @ [DQ] @ ''speaker s'' @ speakerid @ [DQ] @ ''>''
     @ text @ ''</p>'' @ [NL]
     @ [TAB, TAB, TAB] @ ''</div>'' @ [NL] @ [NL]"

fun write_html_loop :: "segment list \<Rightarrow> string \<Rightarrow> error + string" where
  "write_html_loop [] file = Inr file"
| "write_html_loop (segment # transcript) file =
     (let text = str_strip (seg_text segment);
          segment_longest_speaker = seg_longest_speaker segment
      in case re_search_speaker segment_longest_speaker of
           Inl e \<Rightarrow> Inl e
         | Inr m \<Rightarrow>
            (let speakerid = (case m of Some g \<Rightarrow> g | None \<Rightarrow> [])
             in case format_timestamp (seg_start segment) False ''.'' of
                  Inl e \<Rightarrow> Inl e
                | Inr timestamp \<Rightarrow>
                    write_html_loop transcript
                      (file @ html_segment timestamp speakerid text)))"

definition write_html :: "segment list \<Rightarrow> int option \<Rightarrow> bool \<Rightarrow> error + string" where
  "write_html transcript maxLineWidth highlight_words =
     (case write_html_loop transcript
             (''<html>'' @ [NL]
              @ [TAB] @ ''<head>'' @ [TAB, TAB] @ ''<style>'' @ css @ [TAB, TAB] @ ''</style>''
              @ [TAB] @ ''</head>'' @ [NL]
              @ [TAB] @ ''<body>'' @ [NL] @ [NL]
              @ [TAB, TAB] @ ''<div class='segments'>'' @ [NL] @ [NL]) of
        Inl e \<Rightarrow> Inl e
      | Inr file \<Rightarrow>
          Inr (file @ [TAB, TAB] @ ''</div>'' @ [NL] @ [NL] @ [TAB] @ ''</body></html>'' @ [NL]))"

section \<open>Writing the results of one source\<close>

text \<open>
  \<open>write_result\<close> and its helpers, \<^verbatim>\<open>app.py\<close> lines 497-553: the three renderings run
  one after the other on the same segment list, VTT first, then SRT, then HTML. The
  files are the pairs of a name and a content; the JSON dump of the result is left
  out.
\<close>

record transcription_result =
  res_text :: string
  res_language :: "string option"
  res_segments :: "segment list"

definition get_max_line_width :: "string option \<Rightarrow> int" where
  "get_max_line_width language =
     (case language of
        None \<Rightarrow> 80
      | Some l \<Rightarrow> if l \<noteq> [] \<and> str_lower l \<in> set [''japanese'', ''ja'', ''chinese'', ''zh'']
                  then 40 else 80)"

definition get_subs ::
  "(string \<Rightarrow> int \<Rightarrow> error + string list) \<Rightarrow> segment list \<Rightarrow> string \<Rightarrow> int \<Rightarrow> bool \<Rightarrow> error + (segment list \<times> string)" where
  "get_subs wrap segments format maxLineWidth highlight_words =
     (if format = ''vtt'' then write_vtt wrap segments (Some maxLineWidth) highlight_words
      else if format = ''srt'' then write_srt wrap segments (Some maxLineWidth) highlight_words
      else if format = ''html''
      then (case write_html segments (Some maxLineWidth) highlight_words of
              Inl e \<Rightarrow> Inl e | Inr file \<Rightarrow> Inr (segments, file))
      else Inl UnknownFormat)"

definition write_result ::
  "(string \<Rightarrow> int \<Rightarrow> error + string list) \<Rightarrow> transcription_result \<Rightarrow> string \<Rightarrow> bool
   \<Rightarrow> error + (transcription_result \<times> (string \<times> string) list \<times> string \<times> string)" where
  "write_result wrap result source_name highlight_words =
     (let text = res_text result;
          languageMaxLineWidth = get_max_line_width (res_language result)
      in case get_subs wrap (res_segments result) ''vtt'' languageMaxLineWidth highlight_words of
           Inl e \<Rightarrow> Inl e
         | Inr (segments1, vtt) \<Rightarrow>
            (case get_subs wrap segments1 ''srt'' languageMaxLineWidth highlight_words of
               Inl e \<Rightarrow> Inl e
             | Inr (segments2, srt) \<Rightarrow>
                (case get_subs wrap segments2 ''html'' languageMaxLineWidth highlight_words of
                   Inl e \<Rightarrow> Inl e
                 | Inr (segments3, html) \<Rightarrow>
                    Inr (result\<lparr>res_segments := segments3\<rparr>,
                         [(source_name @ ''-subs.srt'', srt),
                          (source_name @ ''-subs.vtt'', vtt),
                          (source_name @ ''-transcript.txt'', text),
                          (source_name @ ''-transcript.html'', html)],
                         text, vtt))))"

section \<open>Source dispatcher\<close>

text \<open>
  \<open>slugify\<close>, \<^verbatim>\<open>src/utils.py\<close> lines 366-380. The Unicode normalisation
  (\<open>unicodedata.normalize\<close>) is the parameter \<open>normalise\<close>; \<open>encode('ascii', 'ignore')\<close> drops the
  characters above 127.
\<close>

datatype normal_form = NFKC | NFKD

fun collapse_dashes :: "string \<Rightarrow> string" where
  "collapse_dashes [] = []"
| "collapse_dashes (c # cs) =
     (if c = CHR ''-'' \<or> is_space c
      then CHR ''-'' # collapse_dashes (dropWhile (\<lambda>x. x = CHR ''-'' \<or> is_space x) cs)
      else c # collapse_dashes cs)"

definition slugify :: "(normal_form \<Rightarrow> string \<Rightarrow> string) \<Rightarrow> string \<Rightarrow> bool \<Rightarrow> string" where
  "slugify normalise value allow_unicode =
     (let value = (if allow_unicode then normalise NFKC value
                   else filter (\<lambda>c. (of_char c :: nat) < 128) (normalise NFKD value));
          value = filter (\<lambda>c. is_word c \<or> is_space c \<or> c = CHR ''-'') (str_lower value)
      in strip_chars (\<lambda>c. c = CHR ''-'' \<or> c = CHR ''_'') (collapse_dashes value))"

text \<open>
  The loop of \<open>transcribe_webui\<close> over the sources, \<^verbatim>\<open>app.py\<close> lines 263-318. Each
  source comes with the result of its transcription, which an external engine
  produces; \<open>os.linesep\<close> is a parameter. The archive is left out. The state of the loop
  is the source index, the download list and the two accumulated texts.
\<close>

record audio_source =
  src_full_name :: string
  src_short_name :: string

definition zfill :: "nat \<Rightarrow> string \<Rightarrow> string" where
  "zfill width s = replicate (width - length s) CHR ''0'' @ s"

definition source_file_prefix ::
  "(normal_form \<Rightarrow> string \<Rightarrow> string) \<Rightarrow> string \<Rightarrow> audio_source \<Rightarrow> string" where
  "source_file_prefix normalise source_prefix source =
     slugify normalise (source_prefix @ src_short_name source) True"

fun transcribe_loop ::
  "(string \<Rightarrow> int \<Rightarrow> error + string list) \<Rightarrow> (normal_form \<Rightarrow> string \<Rightarrow> string) \<Rightarrow> string \<Rightarrow> bool \<Rightarrow> nat
   \<Rightarrow> (audio_source \<times> transcription_result) list
   \<Rightarrow> nat \<Rightarrow> (string \<times> string) list \<Rightarrow> string \<Rightarrow> string
   \<Rightarrow> error + ((string \<times> string) list \<times> string \<times> string)" where
  "transcribe_loop wrap normalise linesep highlight_words n [] source_index download text vtt =
     Inr (download, text, vtt)"
| "transcribe_loop wrap normalise linesep highlight_words n ((source, result) # sources)
     source_index download text vtt =
     (let source_index = (if 1 < n then source_index + 1 else source_index);
          source_prefix = (if 1 < n then zfill 2 (str_nat source_index) @ ''_'' else []);
          filePrefix = source_file_prefix normalise source_prefix source
      in case write_result wrap result filePrefix highlight_words of
           Inl e \<Rightarrow> Inl e
         | Inr (result1, source_download, source_text, source_vtt) \<Rightarrow>
            (let source_text = (if 1 < n \<and> 0 < length source_text
                                then source_text @ linesep @ linesep else source_text);
                 source_vtt = (if 1 < n \<and> 0 < length source_vtt
                               then source_vtt @ linesep @ linesep else source_vtt);
                 source_text = (if 1 < n then src_full_name source @ '':'' @ linesep @ source_text
                                else source_text);
                 source_vtt = (if 1 < n then src_full_name source @ '':'' @ linesep @ source_vtt
                               else source_vtt)
             in transcribe_loop wrap normalise linesep highlight_words n sources source_index
                  (download @ source_download) (text @ source_text) (vtt @ source_vtt)))"

definition transcribe_webui ::
  "(string \<Rightarrow> int \<Rightarrow> error + string list) \<Rightarrow> (normal_form \<Rightarrow> string \<Rightarrow> string) \<Rightarrow> string \<Rightarrow> bool
   \<Rightarrow> (audio_source \<times> transcription_result) list
   \<Rightarrow> error + ((string \<times> string) list \<times> string \<times> string)" where
  "transcribe_webui wrap normalise linesep highlight_words sources =
     transcribe_loop wrap normalise linesep highlight_words (length sources) sources 0 [] [] []"

section \<open>Notions used in the statements\<close>

text \<open>
  A time stamp the formatter accepts: not negative, with a finite product by 1000. For
  such a time \<open>srt_stamp\<close> is what \<open>format_timestamp\<close> returns with forced hours and
  a comma, and \<open>srt_block i c\<close> is the text of cue \<open>c\<close> under the index \<open>i\<close>.
\<close>

definition valid_time :: "rat \<Rightarrow> bool" where
  "valid_time t = (0 \<le> t \<and> double_of (t * 1000) \<noteq> None)"

definition srt_stamp :: "rat \<Rightarrow> string" where
  "srt_stamp t = (case format_timestamp t True '','' of Inr s \<Rightarrow> s | Inl e \<Rightarrow> [])"

definition srt_block :: "nat \<Rightarrow> cue \<Rightarrow> string" where
  "srt_block i c =
     str_nat i @ [NL] @ srt_stamp (cue_start c) @ '' --> '' @ srt_stamp (cue_end c) @ [NL]
     @ str_replace ''-->'' ''->'' (cue_text c) @ [NL] @ [NL]"

text \<open>
  The characters that \<open>slugify\<close> turns into a dash, and a string with two dashes
  next to each other.
\<close>

definition dash_or_space :: "char \<Rightarrow> bool" where
  "dash_or_space c = (c = CHR ''-'' \<or> is_space c)"

definition adjacent_dashes :: "string \<Rightarrow> bool" where
  "adjacent_dashes s = (\<exists>i. Suc i < length s \<and> s ! i = CHR ''-'' \<and> s ! Suc i = CHR ''-'')"

text \<open>
  \<open>tiles a b cues\<close>: the spans of the cues, in their order, run from \<open>a\<close> to \<open>b\<close>;
  each starts where the one before ends, and none ends before it starts.
  \<open>words_within a b words\<close>: the words are in order, none starts before the one before
  ends, and all lie between \<open>a\<close> and \<open>b\<close>.
\<close>

fun tiles :: "rat \<Rightarrow> rat \<Rightarrow> cue list \<Rightarrow> bool" where
  "tiles a b [] = (a = b)"
| "tiles a b (c # cs) = (cue_start c = a \<and> cue_start c \<le> cue_end c \<and> tiles (cue_end c) b cs)"

fun words_within :: "rat \<Rightarrow> rat \<Rightarrow> word_info list \<Rightarrow> bool" where
  "words_within a b [] = (a \<le> b)"
| "words_within a b (w # ws) =
     (a \<le> word_start w \<and> word_start w \<le> word_end w \<and> words_within (word_end w) b ws)"

text \<open>
  The grouping of tokens into lines that the token wrap makes, as a function of the
  display lengths alone: \<open>layout len W xs\<close> is the list of the finished lines and
  the line being filled, each a list of tokens. \<open>lines_text f g\<close> is the text of such a
  grouping when token \<open>x\<close> is written as \<open>f x\<close>; as in the source, the line being
  filled is left out when nothing is written on it.
\<close>

fun layout_loop ::
  "('a \<Rightarrow> int) \<Rightarrow> int \<Rightarrow> 'a list \<Rightarrow> 'a list list \<Rightarrow> 'a list \<Rightarrow> int \<Rightarrow> 'a list list \<times> 'a list" where
  "layout_loop len W [] groups cur n = (groups, cur)"
| "layout_loop len W (x # xs) groups cur n =
     (if 0 < n \<and> W < n + len x
      then layout_loop len W xs (groups @ [cur]) [x] (len x)
      else layout_loop len W xs groups (cur @ [x]) (n + len x))"

definition layout :: "('a \<Rightarrow> int) \<Rightarrow> int \<Rightarrow> 'a list \<Rightarrow> 'a list list \<times> 'a list" where
  "layout len W xs = layout_loop len W xs [] [] 0"

definition lines_text :: "('a \<Rightarrow> string) \<Rightarrow> 'a list list \<times> 'a list \<Rightarrow> string" where
  "lines_text f g =
     (let lines = map (\<lambda>grp. concat (map f grp)) (fst g);
          cur = concat (map f (snd g))
      in str_join [NL] (if 0 < length cur then lines @ [cur] else lines))"

section \<open>Example inputs\<close>

text \<open>A segment with one timed word and a speaker label, as the Diarization Merger leaves it.\<close>

definition speaker_segment :: segment where
  "speaker_segment =
     \<lparr>seg_start = 0, seg_end = 1, seg_text = '' hi'',
      seg_words = [\<lparr>word_start = 0, word_end = 1, word_text = '' hi''\<rparr>],
      seg_longest_speaker = Some ''SPEAKER_00''\<rparr>"

text \<open>A segment whose only word contains the arrow of the cue timing line.\<close>

definition arrow_segment :: segment where
  "arrow_segment =
     \<lparr>seg_start = 0, seg_end = 1, seg_text = '' a --> b'',
      seg_words = [\<lparr>word_start = 0, word_end = 1, word_text = '' a --> b''\<rparr>],
      seg_longest_speaker = None\<rparr>"

text \<open>Two sources with non-empty transcripts and no segments.\<close>

definition two_sources :: "(audio_source \<times> transcription_result) list" where
  "two_sources =
     [(\<lparr>src_full_name = ''a.mp3'', src_short_name = ''a''\<rparr>,
       \<lparr>res_text = ''x'', res_language = None, res_segments = []\<rparr>),
      (\<lparr>src_full_name = ''b.mp3'', src_short_name = ''b''\<rparr>,
       \<lparr>res_text = ''y'', res_language = None, res_segments = []\<rparr>)]"

text \<open>
  A segment whose word ends before the segment does, and a segment with a speaker label
  whose word starts after the segment does.
\<close>

definition gap_segment :: segment where
  "gap_segment =
     \<lparr>seg_start = 0, seg_end = 2, seg_text = '' hi'',
      seg_words = [\<lparr>word_start = 0, word_end = 1, word_text = '' hi''\<rparr>],
      seg_longest_speaker = None\<rparr>"

definition late_speaker_segment :: segment where
  "late_speaker_segment =
     \<lparr>seg_start = 0, seg_end = 3, seg_text = '' hi'',
      seg_words = [\<lparr>word_start = 1, word_end = 2, word_text = '' hi''\<rparr>],
      seg_longest_speaker = Some ''SPEAKER_00''\<rparr>"

section \<open>Verified properties\<close>

subsection \<open>Timestamp formatter\<close>

lemma py_round_cases:
  "(py_round x = \<lfloor>x\<rfloor> \<and> x - of_int \<lfloor>x\<rfloor> \<le> 1 / 2 \<and> (x - of_int \<lfloor>x\<rfloor> = 1 / 2 \<longrightarrow> even \<lfloor>x\<rfloor>))
   \<or> (py_round x = \<lfloor>x\<rfloor> + 1 \<and> 1 / 2 \<le> x - of_int \<lfloor>x\<rfloor> \<and> (x - of_int \<lfloor>x\<rfloor> = 1 / 2 \<longrightarrow> odd \<lfloor>x\<rfloor>))"
  unfolding py_round_def Let_def by (simp add: not_less)

lemma py_round_near: "\<bar>of_int (py_round x) - x\<bar> \<le> 1 / 2"
proof -
  define f :: rat where "f = of_int \<lfloor>x\<rfloor>"
  have fl: "f \<le> x" "x < f + 1" unfolding f_def by linarith+
  from py_round_cases [of x]
  have "(of_int (py_round x) = f \<and> x - f \<le> 1 / 2) \<or> (of_int (py_round x) = f + 1 \<and> 1 / 2 \<le> x - f)"
    unfolding f_def by auto
  with fl show ?thesis by (auto simp: abs_if)
qed

lemma py_round_tie:
  assumes "\<bar>of_int (py_round x) - x\<bar> = 1 / 2"
  shows "even (py_round x)"
proof -
  define f :: rat where "f = of_int \<lfloor>x\<rfloor>"
  have fl: "f \<le> x" "x < f + 1" unfolding f_def by linarith+
  from py_round_cases [of x]
  have c: "(of_int (py_round x) = f \<and> py_round x = \<lfloor>x\<rfloor> \<and> (x - f = 1 / 2 \<longrightarrow> even \<lfloor>x\<rfloor>))
         \<or> (of_int (py_round x) = f + 1 \<and> py_round x = \<lfloor>x\<rfloor> + 1 \<and> (x - f = 1 / 2 \<longrightarrow> odd \<lfloor>x\<rfloor>))"
    unfolding f_def by auto
  from c show ?thesis
  proof (elim disjE conjE)
    assume a: "of_int (py_round x) = f" "py_round x = \<lfloor>x\<rfloor>" "x - f = 1 / 2 \<longrightarrow> even \<lfloor>x\<rfloor>"
    from assms fl a(1) have "x - f = 1 / 2" by (auto simp: abs_if split: if_splits)
    with a show ?thesis by simp
  next
    assume a: "of_int (py_round x) = f + 1" "py_round x = \<lfloor>x\<rfloor> + 1" "x - f = 1 / 2 \<longrightarrow> odd \<lfloor>x\<rfloor>"
    from assms fl a(1) have "x - f = 1 / 2" by (auto simp: abs_if split: if_splits)
    with a show ?thesis by simp
  qed
qed

lemma py_round_unique:
  assumes "\<bar>of_int n - x\<bar> \<le> 1 / 2" and "\<bar>of_int n - x\<bar> = 1 / 2 \<longrightarrow> even n"
  shows "py_round x = n"
proof -
  let ?m = "py_round x"
  have m: "\<bar>of_int ?m - x\<bar> \<le> 1 / 2" by (rule py_round_near)
  have "\<bar>(of_int n :: rat) - of_int ?m\<bar> \<le> 1" using assms(1) m by linarith
  then have "(of_int \<bar>n - ?m\<bar> :: rat) \<le> of_int 1" by simp
  then have "\<bar>n - ?m\<bar> \<le> 1" by (simp only: of_int_le_iff)
  then consider "n = ?m" | "n = ?m + 1" | "n = ?m - 1" by linarith
  then show ?thesis
  proof cases
    case 1 then show ?thesis by simp
  next
    case 2
    then have e: "(of_int n :: rat) = of_int ?m + 1" by simp
    with assms(1) m have "\<bar>of_int n - x\<bar> = 1 / 2" "\<bar>of_int ?m - x\<bar> = 1 / 2" by linarith+
    then have "even n" "even ?m" using assms(2) py_round_tie by auto
    with 2 show ?thesis by simp
  next
    case 3
    then have e: "(of_int n :: rat) = of_int ?m - 1" by simp
    with assms(1) m have "\<bar>of_int n - x\<bar> = 1 / 2" "\<bar>of_int ?m - x\<bar> = 1 / 2" by linarith+
    then have "even n" "even ?m" using assms(2) py_round_tie by auto
    with 3 show ?thesis by simp
  qed
qed

lemma bitlen_eqI: "2 ^ k \<le> n \<Longrightarrow> n < 2 ^ Suc k \<Longrightarrow> bitlen n = Suc k"
proof (induction k arbitrary: n)
  case 0
  then have "n = 1" by simp
  then show ?case by (simp add: bitlen.simps)
next
  case (Suc k)
  have "2 ^ k \<le> n div 2" "n div 2 < 2 ^ Suc k" using Suc.prems by auto
  then have "bitlen (n div 2) = Suc k" by (rule Suc.IH)
  moreover have "0 < (2::nat) ^ Suc k" by simp
  with Suc.prems(1) have "n \<noteq> 0" by linarith
  ultimately show ?case by (subst bitlen.simps) simp
qed

lemma floor_log2_eqI:
  assumes "2 ^ k \<le> x" and "x < 2 ^ Suc k"
  shows "floor_log2 x = int k"
proof -
  have one: "1 \<le> x" using assms(1) one_le_power [of "2::rat" k] by linarith
  then have nn: "0 \<le> \<lfloor>x\<rfloor>" by simp
  have "(of_int (2 ^ k) :: rat) \<le> x" using assms(1) by simp
  then have "(2::int) ^ k \<le> \<lfloor>x\<rfloor>" by (simp only: le_floor_iff)
  then have a: "2 ^ k \<le> nat \<lfloor>x\<rfloor>" using nn by (simp add: le_nat_iff)
  have "x < (of_int (2 ^ Suc k) :: rat)" using assms(2) by simp
  then have "\<lfloor>x\<rfloor> < 2 ^ Suc k" by (simp only: floor_less_iff)
  then have b: "nat \<lfloor>x\<rfloor> < 2 ^ Suc k" using nn by (simp add: nat_less_iff)
  from bitlen_eqI [OF a b] one show ?thesis by (simp add: floor_log2_def)
qed

lemma double_of_eqI:
  assumes "2 ^ k \<le> x" and "x < 2 ^ Suc k" and "k \<le> 1022"
    and "py_round (x / pow2 (int k - 52)) = n"
  shows "double_of x = Some (of_int n * pow2 (int k - 52))"
proof -
  have pos: "\<not> x \<le> 0" using assms(1) zero_less_power [of "2::rat" k] by linarith
  have e: "max (floor_log2 x) (- 1022) = int k"
    using floor_log2_eqI [OF assms(1,2)] by simp
  have ne: "\<not> (1023 < int k \<or> (int k = 1023 \<and> 2 ^ 53 \<le> n))" using assms(3) by simp
  show ?thesis
    unfolding double_of_def Let_def e using pos ne assms(4) by (simp only: if_False)
qed

lemma double_of_overflowI:
  assumes "2 ^ k \<le> x" and "x < 2 ^ Suc k" and "1023 < k"
  shows "double_of x = None"
proof -
  have pos: "\<not> x \<le> 0" using assms(1) zero_less_power [of "2::rat" k] by linarith
  have e: "max (floor_log2 x) (- 1022) = int k"
    using floor_log2_eqI [OF assms(1,2)] by simp
  have big: "1023 < int k" using assms(3) by simp
  show ?thesis
    unfolding double_of_def Let_def e using pos big by (simp only: if_False if_True simp_thms)
qed

lemma split_millis:
  fixes ms :: int
  shows "ms - ms div 3600000 * 3600000 = ms mod 3600000"
    and "ms mod 3600000 - ms mod 3600000 div 60000 * 60000 = ms mod 60000"
    and "ms mod 60000 - ms mod 60000 div 1000 * 1000 = ms mod 1000"
proof -
  show "ms - ms div 3600000 * 3600000 = ms mod 3600000"
    by (simp add: minus_div_mult_eq_mod)
  have "ms mod 3600000 mod 60000 = ms mod 60000"
    by (rule mod_mod_cancel) simp
  then show "ms mod 3600000 - ms mod 3600000 div 60000 * 60000 = ms mod 60000"
    by (simp add: minus_div_mult_eq_mod)
  have "ms mod 60000 mod 1000 = ms mod 1000"
    by (rule mod_mod_cancel) simp
  then show "ms mod 60000 - ms mod 60000 div 1000 * 1000 = ms mod 1000"
    by (simp add: minus_div_mult_eq_mod)
qed

lemma format_timestamp_eq:
  assumes "0 \<le> seconds" and "double_of (seconds * 1000) = Some product"
    and "ms = py_round product"
  shows "format_timestamp seconds h sep =
      Inr ((if h \<or> 0 < ms div 3600000 then format_d 2 (ms div 3600000) @ '':'' else [])
           @ format_d 2 (ms mod 3600000 div 60000) @ '':''
           @ format_d 2 (ms mod 60000 div 1000) @ sep
           @ format_d 3 (ms mod 1000))"
proof -
  have "format_timestamp seconds h sep =
      Inr ((if h \<or> 0 < ms div 3600000 then format_d 2 (ms div 3600000) @ '':'' else [])
           @ format_d 2 ((ms - ms div 3600000 * 3600000) div 60000) @ '':''
           @ format_d 2 ((ms - ms div 3600000 * 3600000
                - (ms - ms div 3600000 * 3600000) div 60000 * 60000) div 1000) @ sep
           @ format_d 3 (ms - ms div 3600000 * 3600000
                - (ms - ms div 3600000 * 3600000) div 60000 * 60000
                - (ms - ms div 3600000 * 3600000
                - (ms - ms div 3600000 * 3600000) div 60000 * 60000) div 1000 * 1000))"
    using assms by (simp add: format_timestamp_def Let_def)
  then show ?thesis by (simp only: split_millis)
qed

lemma format_timestamp_overflow:
  "0 \<le> seconds \<Longrightarrow> double_of (seconds * 1000) = None
   \<Longrightarrow> format_timestamp seconds h sep = Inl OverflowError"
  by (simp add: format_timestamp_def)

lemma format_timestamp_negative:
  "seconds < 0 \<Longrightarrow> format_timestamp seconds h sep = Inl AssertionError"
  by (simp add: format_timestamp_def)

lemma format_d_values:
  "format_d 2 0 = ''00''" "format_d 3 0 = ''000''" "format_d 2 1 = ''01''"
  "format_d 3 200 = ''200''" "format_d 2 12 = ''12''" "format_d 3 346 = ''346''"
  "format_d 2 2 = ''02''" "format_d 2 3 = ''03''"
  by code_simp+

lemma py_round_int: "py_round (of_int n) = n"
  by (rule py_round_unique) simp_all

lemma double_of_zero: "double_of 0 = Some 0"
  by (simp add: double_of_def)

lemma format_timestamp_zero:
  "format_timestamp 0 False sep = Inr (''00:00'' @ sep @ ''000'')"
  "format_timestamp 0 True sep = Inr (''00:00:00'' @ sep @ ''000'')"
  using format_timestamp_eq [of 0 0 0 False sep] format_timestamp_eq [of 0 0 0 True sep]
    py_round_int [of 0]
  by (simp_all add: double_of_zero format_d_values)

text \<open>The literal 3661.2005 denotes the double 4025532521369305 / 2 ^ 40.\<close>

lemma double_3661: "double_of (36612005 / 10000) = Some (4025532521369305 / 1099511627776)"
proof -
  have r: "py_round (36612005 / 10000 / pow2 (int 11 - 52)) = 8051065042738610"
    by (rule py_round_unique) (simp_all add: pow2_def)
  show ?thesis
    using double_of_eqI [of 11 "36612005 / 10000", OF _ _ _ r] by (simp add: pow2_def)
qed

lemma product_3661:
  "double_of (4025532521369305 / 1099511627776 * 1000) = Some (7322401 / 2)"
proof -
  have r: "py_round (4025532521369305 / 1099511627776 * 1000 / pow2 (int 21 - 52))
           = 7862368205799424"
    by (rule py_round_unique) (simp_all add: pow2_def)
  show ?thesis
    using double_of_eqI [of 21 "4025532521369305 / 1099511627776 * 1000", OF _ _ _ r]
    by (simp add: pow2_def)
qed

lemma round_3661: "py_round (7322401 / 2) = 3661200"
  by (rule py_round_unique) simp_all

lemma format_3661:
  "format_timestamp (4025532521369305 / 1099511627776) True ''.'' = Inr ''01:01:01.200''"
  using format_timestamp_eq [OF _ product_3661, of 3661200 True "''.''"]
  by (simp add: round_3661 format_d_values)

text \<open>The double nearest to 12.3455 is 6949898649962807 / 2 ^ 49, just below 12.3455.\<close>

lemma product_12:
  "double_of (6949898649962807 / 562949953421312 * 1000) = Some (24691 / 2)"
proof -
  have r: "py_round (6949898649962807 / 562949953421312 * 1000 / pow2 (int 13 - 52))
           = 6787010400354304"
    by (rule py_round_unique) (simp_all add: pow2_def)
  show ?thesis
    using double_of_eqI [of 13 "6949898649962807 / 562949953421312 * 1000", OF _ _ _ r]
    by (simp add: pow2_def)
qed

lemma round_12: "py_round (24691 / 2) = 12346"
  by (rule py_round_unique) simp_all

text \<open>
  Claim C3, as the code has it. The milliseconds are Python's \<open>round\<close> of the double
  product \<open>seconds * 1000.0\<close>: an integer at most half a millisecond away from that
  product, not its integer part. The fields are that integer divided up by 3600000,
  60000 and 1000. \<open>format_timestamp(0)\<close> is \<open>00:00.000\<close>, with forced hours
  \<open>00:00:00.000\<close>. For 3661.2005 with forced hours the result is \<open>01:01:01.200\<close>:
  the product is the double 3661200.5, and \<open>round\<close> resolves the tie to the even
  3661200.
\<close>

theorem format_timestamp_rounds:
  "format_timestamp 0 False ''.'' = Inr ''00:00.000''
   \<and> format_timestamp 0 True ''.'' = Inr ''00:00:00.000''
   \<and> double_of (36612005 / 10000) = Some (4025532521369305 / 1099511627776)
   \<and> format_timestamp (4025532521369305 / 1099511627776) True ''.'' = Inr ''01:01:01.200''
   \<and> (0 \<le> seconds \<and> double_of (seconds * 1000) = Some product \<and> ms = py_round product \<longrightarrow>
        \<bar>of_int ms - product\<bar> \<le> 1 / 2
        \<and> format_timestamp seconds h sep =
            Inr ((if h \<or> 0 < ms div 3600000
                  then format_d 2 (ms div 3600000) @ '':'' else [])
                 @ format_d 2 (ms mod 3600000 div 60000) @ '':''
                 @ format_d 2 (ms mod 60000 div 1000) @ sep
                 @ format_d 3 (ms mod 1000)))"
proof -
  have a: "format_timestamp 0 False ''.'' = Inr ''00:00.000''"
    using format_timestamp_zero(1) [of "''.''"] by simp
  have b: "format_timestamp 0 True ''.'' = Inr ''00:00:00.000''"
    using format_timestamp_zero(2) [of "''.''"] by simp
  show ?thesis
    using a b double_3661 format_3661 py_round_near [of product]
      format_timestamp_eq [of seconds product ms h sep]
    by blast
qed

text \<open>
  The witness is the double nearest to 12.3455: the product is the double 12345.5,
  rounded to 12346 (the integer part is 12345).
\<close>

theorem format_timestamp_rounds_witness:
  "(0::rat) \<le> 6949898649962807 / 562949953421312
   \<and> double_of (6949898649962807 / 562949953421312 * 1000) = Some (24691 / 2)
   \<and> 12346 = py_round (24691 / 2)
   \<and> \<bar>of_int 12346 - (24691 / 2 :: rat)\<bar> \<le> 1 / 2
   \<and> format_timestamp (6949898649962807 / 562949953421312) False ''.'' = Inr ''00:12.346''"
  using format_timestamp_rounds [of "6949898649962807 / 562949953421312" "24691 / 2" 12346
      False "''.''"] product_12 round_12
  by (simp add: format_d_values)

text \<open>
  Claim C3 as stated fails: \<open>format_timestamp(3661.2005)\<close> with forced hours is not
  \<open>01:01:01.201\<close>.
\<close>

theorem format_timestamp_example_counterexample:
  "double_of (36612005 / 10000) = Some (4025532521369305 / 1099511627776)
   \<and> format_timestamp (4025532521369305 / 1099511627776) True ''.'' \<noteq> Inr ''01:01:01.201''"
  using double_3661 format_3661 by simp

subsection \<open>Token wrap without a width\<close>

text \<open>
  Claim C7 at its failing inputs. With no width (or a negative one) \<open>__join_words\<close>
  joins string tokens with a space between them, so that tokens which carry their own
  leading space end up two spaces apart, where the claim says direct concatenation; with
  a width the same tokens are concatenated directly. On the dictionary tokens of a
  highlight cue it raises \<open>TypeError\<close> without a width.
\<close>

theorem join_words_no_width_failing_input:
  "join_words [Str '' Hello'', Str '' world''] None = Inr '' Hello  world''
   \<and> join_words [Str '' Hello'', Str '' world''] (Some (- 1)) = Inr '' Hello  world''
   \<and> join_words [Str '' Hello'', Str '' world''] (Some 80) = Inr '' Hello world''
   \<and> join_words [Dict '' <u>Hello</u>'' 6, Dict '' world'' 6] None = Inl TypeError
   \<and> join_words [Dict '' <u>Hello</u>'' 6, Dict '' world'' 6] (Some 80)
       = Inr '' <u>Hello</u> world''"
  by code_simp

subsection \<open>HTML renderer without a speaker label\<close>

text \<open>
  Claim C5 at its failing input: a segment without a speaker label. \<open>re.search\<close> is
  called on \<open>None\<close> and raises \<open>TypeError\<close> before the branch that sets the empty
  suffix is reached, so \<open>write_html\<close> fails instead of rendering the block.
\<close>

theorem write_html_no_speaker_failing_input:
  "write_html [\<lparr>seg_start = 0, seg_end = 1, seg_text = '' Hello'', seg_words = [],
                seg_longest_speaker = None\<rparr>] maxLineWidth highlight_words = Inl TypeError"
  by (simp add: write_html_def re_search_speaker_def)

subsection \<open>Rendering changes the segment\<close>

lemma it1:
  "subtitle_preprocessor_iterator wrap [speaker_segment] (Some 80) False =
     ([speaker_segment\<lparr>seg_words :=
          [\<lparr>word_start = 0, word_end = 0, word_text = ''(SPEAKER_00)''\<rparr>,
           \<lparr>word_start = 0, word_end = 1, word_text = '' hi''\<rparr>]\<rparr>],
      [\<lparr>cue_start = 0, cue_end = 1, cue_text = ''(SPEAKER_00) hi''\<rparr>], None)"
  by (simp add: speaker_segment_def segment_cues_def join_words_def no_width_def Let_def NL_def)

lemma it2:
  "subtitle_preprocessor_iterator wrap [speaker_segment\<lparr>seg_words :=
          [\<lparr>word_start = 0, word_end = 0, word_text = ''(SPEAKER_00)''\<rparr>,
           \<lparr>word_start = 0, word_end = 1, word_text = '' hi''\<rparr>]\<rparr>] (Some 80) False =
     ([speaker_segment\<lparr>seg_words :=
          [\<lparr>word_start = 0, word_end = 0, word_text = ''(SPEAKER_00)''\<rparr>,
           \<lparr>word_start = 0, word_end = 0, word_text = ''(SPEAKER_00)''\<rparr>,
           \<lparr>word_start = 0, word_end = 1, word_text = '' hi''\<rparr>]\<rparr>],
      [\<lparr>cue_start = 0, cue_end = 1, cue_text = ''(SPEAKER_00)(SPEAKER_00) hi''\<rparr>], None)"
  by (simp add: speaker_segment_def segment_cues_def join_words_def no_width_def Let_def NL_def)

lemma one_second:
  "format_timestamp 1 True '','' = Inr ''00:00:01,000''"
  "format_timestamp 1 False ''.'' = Inr ''00:01.000''"
  by code_simp+

lemma rep1: "str_replace ''-->'' ''->'' ''(SPEAKER_00) hi'' = ''(SPEAKER_00) hi''"
  "str_replace ''-->'' ''->'' ''(SPEAKER_00)(SPEAKER_00) hi'' = ''(SPEAKER_00)(SPEAKER_00) hi''"
  by code_simp+

text \<open>
  Claim C2 at its failing input: a segment with a timed word and a speaker label. The
  caption synthesizer inserts the speaker pseudo-word into the word list of the segment
  itself. \<open>write_vtt\<close> leaves the segment with two words; \<open>write_srt\<close>, which
  \<open>write_result\<close> runs next on the same segments, inserts the pseudo-word again and
  writes the label twice, where a first rendering writes it once.
\<close>

theorem rendering_mutates_segment_failing_input:
  "write_vtt wrap [speaker_segment] (Some 80) False =
     Inr ([speaker_segment\<lparr>seg_words :=
             [\<lparr>word_start = 0, word_end = 0, word_text = ''(SPEAKER_00)''\<rparr>,
              \<lparr>word_start = 0, word_end = 1, word_text = '' hi''\<rparr>]\<rparr>],
          ''WEBVTT'' @ [NL, NL] @ ''00:00.000 --> 00:01.000'' @ [NL]
          @ ''(SPEAKER_00) hi'' @ [NL, NL])
   \<and> write_srt wrap [speaker_segment\<lparr>seg_words :=
             [\<lparr>word_start = 0, word_end = 0, word_text = ''(SPEAKER_00)''\<rparr>,
              \<lparr>word_start = 0, word_end = 1, word_text = '' hi''\<rparr>]\<rparr>] (Some 80) False =
     Inr ([speaker_segment\<lparr>seg_words :=
             [\<lparr>word_start = 0, word_end = 0, word_text = ''(SPEAKER_00)''\<rparr>,
              \<lparr>word_start = 0, word_end = 0, word_text = ''(SPEAKER_00)''\<rparr>,
              \<lparr>word_start = 0, word_end = 1, word_text = '' hi''\<rparr>]\<rparr>],
          ''1'' @ [NL] @ ''00:00:00,000 --> 00:00:01,000'' @ [NL]
          @ ''(SPEAKER_00)(SPEAKER_00) hi'' @ [NL, NL])
   \<and> write_srt wrap [speaker_segment] (Some 80) False =
     Inr ([speaker_segment\<lparr>seg_words :=
             [\<lparr>word_start = 0, word_end = 0, word_text = ''(SPEAKER_00)''\<rparr>,
              \<lparr>word_start = 0, word_end = 1, word_text = '' hi''\<rparr>]\<rparr>],
          ''1'' @ [NL] @ ''00:00:00,000 --> 00:00:01,000'' @ [NL]
          @ ''(SPEAKER_00) hi'' @ [NL, NL])"
proof -
  have n1: "str_nat (Suc 0) = ''1''" by code_simp
  show ?thesis
    unfolding write_vtt_def write_srt_def it1 it2
    using format_timestamp_zero(1) [of "''.''"] format_timestamp_zero(2) [of "'',''"]
    by (simp add: one_second rep1 n1)
qed

subsection \<open>SRT renderer\<close>

lemma valid_time_format:
  assumes "valid_time t"
  shows "format_timestamp t True '','' = Inr (srt_stamp t)"
proof -
  from assms obtain p where "0 \<le> t" "double_of (t * 1000) = Some p"
    by (auto simp: valid_time_def)
  then have "\<exists>s. format_timestamp t True '','' = Inr s"
    using format_timestamp_eq [of t p "py_round p" True "'',''"] by simp
  then show ?thesis by (auto simp: srt_stamp_def)
qed

lemma write_srt_loop_blocks:
  assumes "\<forall>c\<in>set cues. valid_time (cue_start c) \<and> valid_time (cue_end c)"
  shows "write_srt_loop i cues out =
           Inr (out @ concat (map (\<lambda>(k, c). srt_block k c) (enumerate i cues)))"
  using assms
proof (induction cues arbitrary: i out)
  case Nil
  show ?case by simp
next
  case (Cons c cues)
  have s: "format_timestamp (cue_start c) True '','' = Inr (srt_stamp (cue_start c))"
    and e: "format_timestamp (cue_end c) True '','' = Inr (srt_stamp (cue_end c))"
    using Cons.prems by (simp_all add: valid_time_format)
  have rest: "\<forall>c\<in>set cues. valid_time (cue_start c) \<and> valid_time (cue_end c)"
    using Cons.prems by simp
  show ?case
    by (simp add: s e Let_def Cons.IH [OF rest] srt_block_def)
qed

text \<open>
  Claim C6. For cues whose times the formatter accepts, the SRT renderer writes one
  block per cue, in the order of the cues: the index counted from 1, the two time
  stamps with forced hours and a comma joined by the arrow, the text with \<open>-->\<close>
  replaced by \<open>->\<close>, and an empty line. \<open>write_srt\<close> feeds the cues of the caption
  synthesizer to this loop.
\<close>

theorem write_srt_blocks:
  assumes "\<forall>c\<in>set cues. valid_time (cue_start c) \<and> valid_time (cue_end c)"
  shows "write_srt_loop 1 cues [] = Inr (concat (map (\<lambda>(k, c). srt_block k c) (enumerate 1 cues)))
    \<and> length (map (\<lambda>(k, c). srt_block k c) (enumerate 1 cues)) = length cues
    \<and> (\<forall>j<length cues.
          map (\<lambda>(k, c). srt_block k c) (enumerate 1 cues) ! j = srt_block (Suc j) (cues ! j)
          \<and> format_timestamp (cue_start (cues ! j)) True '','' = Inr (srt_stamp (cue_start (cues ! j)))
          \<and> format_timestamp (cue_end (cues ! j)) True '','' = Inr (srt_stamp (cue_end (cues ! j))))
    \<and> (subtitle_preprocessor_iterator wrap transcript maxLineWidth highlight_words
          = (transcript', cues, None)
        \<longrightarrow> write_srt wrap transcript maxLineWidth highlight_words
          = Inr (transcript', concat (map (\<lambda>(k, c). srt_block k c) (enumerate 1 cues))))"
proof -
  have l: "write_srt_loop 1 cues [] = Inr (concat (map (\<lambda>(k, c). srt_block k c) (enumerate 1 cues)))"
    using write_srt_loop_blocks [OF assms, of 1 "[]"] by simp
  have n: "\<forall>j<length cues.
          map (\<lambda>(k, c). srt_block k c) (enumerate 1 cues) ! j = srt_block (Suc j) (cues ! j)"
    by (simp add: nth_enumerate_eq)
  have f: "\<forall>j<length cues.
      format_timestamp (cue_start (cues ! j)) True '','' = Inr (srt_stamp (cue_start (cues ! j)))
      \<and> format_timestamp (cue_end (cues ! j)) True '','' = Inr (srt_stamp (cue_end (cues ! j)))"
    using assms by (simp add: valid_time_format)
  have w: "subtitle_preprocessor_iterator wrap transcript maxLineWidth highlight_words
          = (transcript', cues, None)
        \<longrightarrow> write_srt wrap transcript maxLineWidth highlight_words
          = Inr (transcript', concat (map (\<lambda>(k, c). srt_block k c) (enumerate 1 cues)))"
    using l by (simp add: write_srt_def Let_def)
  from l n f w show ?thesis by simp
qed

lemma valid_time_01: "valid_time 0" "valid_time 1"
proof -
  show "valid_time 0" by (simp add: valid_time_def double_of_zero)
  have r: "py_round (1 * 1000 / pow2 (int 9 - 52)) = 8796093022208000"
    by (rule py_round_unique) (simp_all add: pow2_def)
  have "double_of (1 * 1000) = Some 1000"
    using double_of_eqI [of 9 "1 * 1000", OF _ _ _ r] by (simp add: pow2_def)
  then show "valid_time 1" by (simp add: valid_time_def)
qed

lemma it_arrow:
  "subtitle_preprocessor_iterator wrap [arrow_segment] (Some 80) False =
     ([arrow_segment], [\<lparr>cue_start = 0, cue_end = 1, cue_text = '' a --> b''\<rparr>], None)"
  by (simp add: arrow_segment_def segment_cues_def join_words_def no_width_def Let_def NL_def)

theorem write_srt_blocks_witness:
  "valid_time 0 \<and> valid_time 1
   \<and> subtitle_preprocessor_iterator textwrap_wrap [arrow_segment] (Some 80) False =
       ([arrow_segment], [\<lparr>cue_start = 0, cue_end = 1, cue_text = '' a --> b''\<rparr>], None)
   \<and> write_srt_loop 1 [\<lparr>cue_start = 0, cue_end = 1, cue_text = '' a --> b''\<rparr>] [] =
       Inr (''1'' @ [NL] @ ''00:00:00,000 --> 00:00:01,000'' @ [NL] @ '' a -> b'' @ [NL, NL])
   \<and> write_srt textwrap_wrap [arrow_segment] (Some 80) False =
       Inr ([arrow_segment],
            ''1'' @ [NL] @ ''00:00:00,000 --> 00:00:01,000'' @ [NL] @ '' a -> b'' @ [NL, NL])"
proof -
  let ?cues = "[\<lparr>cue_start = 0, cue_end = 1, cue_text = '' a --> b''\<rparr>]"
  have v: "\<forall>c\<in>set ?cues. valid_time (cue_start c) \<and> valid_time (cue_end c)"
    by (simp add: valid_time_01)
  have st: "srt_stamp 0 = ''00:00:00,000''" "srt_stamp 1 = ''00:00:01,000''"
    using format_timestamp_zero(2) [of "'',''"] one_second(1) by (simp_all add: srt_stamp_def)
  have rp: "str_replace ''-->'' ''->'' '' a --> b'' = '' a -> b''" by code_simp
  have n: "str_nat (Suc 0) = ''1''" by code_simp
  have b: "concat (map (\<lambda>(k, c). srt_block k c) (enumerate 1 ?cues)) =
      ''1'' @ [NL] @ ''00:00:00,000 --> 00:00:01,000'' @ [NL] @ '' a -> b'' @ [NL, NL]"
    by (simp add: srt_block_def st rp n)
  note th = write_srt_blocks [OF v, of textwrap_wrap "[arrow_segment]" "Some 80" False
      "[arrow_segment]"]
  have l: "write_srt_loop 1 ?cues [] =
      Inr (concat (map (\<lambda>(k, c). srt_block k c) (enumerate 1 ?cues)))"
    using th by blast
  have w: "write_srt textwrap_wrap [arrow_segment] (Some 80) False =
      Inr ([arrow_segment], concat (map (\<lambda>(k, c). srt_block k c) (enumerate 1 ?cues)))"
    using th it_arrow [of textwrap_wrap] by blast
  from l have l': "write_srt_loop 1 ?cues [] =
      Inr (''1'' @ [NL] @ ''00:00:00,000 --> 00:00:01,000'' @ [NL] @ '' a -> b'' @ [NL, NL])"
    by (simp only: b)
  from w have w': "write_srt textwrap_wrap [arrow_segment] (Some 80) False =
      Inr ([arrow_segment],
           ''1'' @ [NL] @ ''00:00:00,000 --> 00:00:01,000'' @ [NL] @ '' a -> b'' @ [NL, NL])"
    by (simp only: b)
  show ?thesis using valid_time_01 it_arrow [of textwrap_wrap] l' w' by blast
qed

subsection \<open>Combined text of the dispatcher\<close>

lemma write_result_text:
  "write_result wrap r p hl = Inr (r', f, t, v) \<Longrightarrow> t = res_text r"
  by (auto simp: write_result_def Let_def split: sum.splits prod.splits)

lemma zfill_index:
  "zfill 2 (str_nat (Suc 0)) = ''01''" "zfill 2 (str_nat (Suc (Suc 0))) = ''02''"
  by code_simp+

text \<open>
  Claim C4, as the code has it. With two sources whose outputs are written without an
  exception and whose transcripts are not empty, the combined text is, for each source
  in turn, the full name, a colon, a line separator, the text and two line separators:
  the separators follow the text of the second source as well.
\<close>

theorem combined_text_two_sources:
  assumes "write_result wrap r1 (source_file_prefix normalise ''01_'' s1) hl = Inr o1"
    and "write_result wrap r2 (source_file_prefix normalise ''02_'' s2) hl = Inr o2"
    and "res_text r1 \<noteq> []" and "res_text r2 \<noteq> []"
  shows "\<exists>download vtt.
    transcribe_webui wrap normalise linesep hl [(s1, r1), (s2, r2)] =
      Inr (download,
           src_full_name s1 @ '':'' @ linesep @ res_text r1 @ linesep @ linesep
           @ src_full_name s2 @ '':'' @ linesep @ res_text r2 @ linesep @ linesep,
           vtt)"
proof -
  obtain r1' f1 t1 v1 where o1: "o1 = (r1', f1, t1, v1)" by (cases o1) auto
  obtain r2' f2 t2 v2 where o2: "o2 = (r2', f2, t2, v2)" by (cases o2) auto
  have t1: "t1 = res_text r1" using assms(1) o1 write_result_text by blast
  have t2: "t2 = res_text r2" using assms(2) o2 write_result_text by blast
  show ?thesis
    using assms o1 o2 t1 t2
    by (simp add: transcribe_webui_def Let_def zfill_index)
qed

lemma two_sources_text:
  "map_sum id (\<lambda>(download, text, vtt). text)
     (transcribe_webui textwrap_wrap (\<lambda>form s. s) [NL] False two_sources)
   = Inr (''a.mp3:'' @ [NL] @ ''x'' @ [NL, NL] @ ''b.mp3:'' @ [NL] @ ''y'' @ [NL, NL])"
  by code_simp

text \<open>
  Claim C4 as stated fails: the combined text of the two example sources is not
  the one that ends with the second text, without the two final line feeds.
\<close>

theorem combined_text_counterexample:
  "map_sum id (\<lambda>(download, text, vtt). text)
     (transcribe_webui textwrap_wrap (\<lambda>form s. s) [NL] False two_sources)
   \<noteq> Inr (''a.mp3:'' @ [NL] @ ''x'' @ [NL, NL] @ ''b.mp3:'' @ [NL] @ ''y'')"
  unfolding two_sources_text by simp

lemma two_sources_ok:
  "\<exists>o1. write_result textwrap_wrap (snd (two_sources ! 0))
       (source_file_prefix (\<lambda>form s. s) ''01_'' (fst (two_sources ! 0))) False = Inr o1"
  "\<exists>o2. write_result textwrap_wrap (snd (two_sources ! 1))
       (source_file_prefix (\<lambda>form s. s) ''02_'' (fst (two_sources ! 1))) False = Inr o2"
  by (simp_all add: two_sources_def write_result_def get_subs_def write_vtt_def write_srt_def
      write_html_def Let_def)

theorem combined_text_two_sources_witness:
  "(\<exists>o1. write_result textwrap_wrap (snd (two_sources ! 0))
       (source_file_prefix (\<lambda>form s. s) ''01_'' (fst (two_sources ! 0))) False = Inr o1)
   \<and> (\<exists>o2. write_result textwrap_wrap (snd (two_sources ! 1))
       (source_file_prefix (\<lambda>form s. s) ''02_'' (fst (two_sources ! 1))) False = Inr o2)
   \<and> res_text (snd (two_sources ! 0)) \<noteq> [] \<and> res_text (snd (two_sources ! 1)) \<noteq> []
   \<and> (\<exists>download vtt. transcribe_webui textwrap_wrap (\<lambda>form s. s) [NL] False two_sources =
        Inr (download,
             ''a.mp3:'' @ [NL] @ ''x'' @ [NL, NL] @ ''b.mp3:'' @ [NL] @ ''y'' @ [NL, NL], vtt))"
proof -
  from two_sources_ok obtain o1 o2 where
    a: "write_result textwrap_wrap (snd (two_sources ! 0))
       (source_file_prefix (\<lambda>form s. s) ''01_'' (fst (two_sources ! 0))) False = Inr o1"
    and b: "write_result textwrap_wrap (snd (two_sources ! 1))
       (source_file_prefix (\<lambda>form s. s) ''02_'' (fst (two_sources ! 1))) False = Inr o2"
    by blast
  have n: "res_text (snd (two_sources ! 0)) \<noteq> []" "res_text (snd (two_sources ! 1)) \<noteq> []"
    by (simp_all add: two_sources_def)
  have l: "two_sources = [(fst (two_sources ! 0), snd (two_sources ! 0)),
                          (fst (two_sources ! 1), snd (two_sources ! 1))]"
    by (simp add: two_sources_def)
  from combined_text_two_sources [OF a b n, of "[NL]"] l
  have "\<exists>download vtt. transcribe_webui textwrap_wrap (\<lambda>form s. s) [NL] False two_sources =
        Inr (download,
             src_full_name (fst (two_sources ! 0)) @ '':'' @ [NL] @ res_text (snd (two_sources ! 0))
             @ [NL] @ [NL]
             @ src_full_name (fst (two_sources ! 1)) @ '':'' @ [NL] @ res_text (snd (two_sources ! 1))
             @ [NL] @ [NL], vtt)"
    by simp
  then have "\<exists>download vtt. transcribe_webui textwrap_wrap (\<lambda>form s. s) [NL] False two_sources =
        Inr (download,
             ''a.mp3:'' @ [NL] @ ''x'' @ [NL, NL] @ ''b.mp3:'' @ [NL] @ ''y'' @ [NL, NL], vtt)"
    by (simp add: two_sources_def)
  with a b n show ?thesis by blast
qed

subsection \<open>Slugs\<close>

lemma lower_not_upper: "\<not> is_upper (lower_char c)"
proof (cases "is_upper c")
  case False
  then show ?thesis by (simp add: lower_char_def)
next
  case True
  then have "(of_char c :: nat) + 32 < 256" by (auto simp: is_upper_def Let_def)
  then have "(of_char (char_of ((of_char c :: nat) + 32)) :: nat) = of_char c + 32"
    by (simp add: of_char_of)
  with True show ?thesis by (auto simp: lower_char_def is_upper_def Let_def)
qed

lemma dash_not_space: "\<not> is_space CHR ''-''" "\<not> is_upper CHR ''-''"
  by (simp_all add: is_space_def is_upper_def)

lemma collapse_set:
  "c \<in> set (collapse_dashes s) \<Longrightarrow> c = CHR ''-'' \<or> (c \<in> set s \<and> \<not> is_space c)"
proof (induction s arbitrary: c rule: collapse_dashes.induct)
  case 1
  then show ?case by simp
next
  case (2 x xs)
  show ?case
  proof (cases "x = CHR ''-'' \<or> is_space x")
    case True
    with "2.prems" have "c = CHR ''-''
        \<or> c \<in> set (collapse_dashes (dropWhile (\<lambda>x. x = CHR ''-'' \<or> is_space x) xs))" by auto
    then show ?thesis
    proof
      assume "c = CHR ''-''" then show ?thesis by simp
    next
      assume "c \<in> set (collapse_dashes (dropWhile (\<lambda>x. x = CHR ''-'' \<or> is_space x) xs))"
      from "2.IH"(1) [OF True this] show ?thesis by (auto dest: set_dropWhileD)
    qed
  next
    case False
    with "2.prems" have "c = x \<or> c \<in> set (collapse_dashes xs)" by auto
    then show ?thesis using False "2.IH"(2) [OF False] by auto
  qed
qed

lemma collapse_hd:
  "collapse_dashes s \<noteq> [] \<Longrightarrow> hd (collapse_dashes s) = CHR ''-'' \<Longrightarrow> s \<noteq> [] \<and> dash_or_space (hd s)"
  by (cases s) (auto simp: dash_or_space_def split: if_splits)

lemma adjacent_Cons:
  "adjacent_dashes (a # s) = ((s \<noteq> [] \<and> a = CHR ''-'' \<and> hd s = CHR ''-'') \<or> adjacent_dashes s)"
proof
  assume "adjacent_dashes (a # s)"
  then obtain i where i: "Suc i < length (a # s)" "(a # s) ! i = CHR ''-''" "(a # s) ! Suc i = CHR ''-''"
    by (auto simp: adjacent_dashes_def)
  show "(s \<noteq> [] \<and> a = CHR ''-'' \<and> hd s = CHR ''-'') \<or> adjacent_dashes s"
  proof (cases i)
    case 0
    with i show ?thesis by (cases s) auto
  next
    case (Suc j)
    with i have "Suc j < length s \<and> s ! j = CHR ''-'' \<and> s ! Suc j = CHR ''-''" by auto
    then show ?thesis by (auto simp: adjacent_dashes_def)
  qed
next
  assume "(s \<noteq> [] \<and> a = CHR ''-'' \<and> hd s = CHR ''-'') \<or> adjacent_dashes s"
  then show "adjacent_dashes (a # s)"
  proof
    assume "s \<noteq> [] \<and> a = CHR ''-'' \<and> hd s = CHR ''-''"
    then have "Suc 0 < length (a # s) \<and> (a # s) ! 0 = CHR ''-'' \<and> (a # s) ! Suc 0 = CHR ''-''"
      by (cases s) auto
    then show ?thesis unfolding adjacent_dashes_def by blast
  next
    assume "adjacent_dashes s"
    then obtain i where "Suc i < length s \<and> s ! i = CHR ''-'' \<and> s ! Suc i = CHR ''-''"
      by (auto simp: adjacent_dashes_def)
    then have "Suc (Suc i) < length (a # s) \<and> (a # s) ! Suc i = CHR ''-''
        \<and> (a # s) ! Suc (Suc i) = CHR ''-''" by simp
    then show ?thesis unfolding adjacent_dashes_def by blast
  qed
qed

lemma collapse_no_adjacent: "\<not> adjacent_dashes (collapse_dashes s)"
proof (induction s rule: collapse_dashes.induct)
  case 1
  show ?case by (simp add: adjacent_dashes_def)
next
  case (2 x xs)
  show ?case
  proof (cases "x = CHR ''-'' \<or> is_space x")
    case True
    let ?r = "dropWhile (\<lambda>x. x = CHR ''-'' \<or> is_space x) xs"
    have ih: "\<not> adjacent_dashes (collapse_dashes ?r)" by (rule "2.IH"(1) [OF True])
    have "\<not> (collapse_dashes ?r \<noteq> [] \<and> hd (collapse_dashes ?r) = CHR ''-'')"
    proof
      assume a: "collapse_dashes ?r \<noteq> [] \<and> hd (collapse_dashes ?r) = CHR ''-''"
      then have "?r \<noteq> [] \<and> dash_or_space (hd ?r)" using collapse_hd by blast
      then show False using hd_dropWhile [of "\<lambda>x. x = CHR ''-'' \<or> is_space x" xs]
        by (auto simp: dash_or_space_def)
    qed
    with ih True show ?thesis by (simp add: adjacent_Cons)
  next
    case False
    with "2.IH"(2) [OF False] show ?thesis by (simp add: adjacent_Cons)
  qed
qed

lemma adjacent_append:
  "adjacent_dashes r \<Longrightarrow> adjacent_dashes (a @ r @ b)"
proof -
  assume "adjacent_dashes r"
  then obtain i where i: "Suc i < length r" "r ! i = CHR ''-''" "r ! Suc i = CHR ''-''"
    by (auto simp: adjacent_dashes_def)
  have "Suc (length a + i) < length (a @ r @ b)" using i by simp
  moreover have "(a @ r @ b) ! (length a + i) = CHR ''-''" using i by (simp add: nth_append)
  moreover have "(a @ r @ b) ! Suc (length a + i) = CHR ''-''"
    using i by (simp add: nth_append)
  ultimately show ?thesis unfolding adjacent_dashes_def by blast
qed

lemma strip_chars_decomp: "\<exists>a b. s = a @ strip_chars p s @ b"
proof -
  let ?t = "dropWhile p s"
  have 1: "s = takeWhile p s @ ?t" by simp
  have "rev (dropWhile p (rev ?t)) @ rev (takeWhile p (rev ?t))
        = rev (takeWhile p (rev ?t) @ dropWhile p (rev ?t))" by (simp only: rev_append)
  also have "\<dots> = rev (rev ?t)" by (simp only: takeWhile_dropWhile_id)
  also have "\<dots> = ?t" by simp
  finally have 2: "?t = rev (dropWhile p (rev ?t)) @ rev (takeWhile p (rev ?t))" by simp
  have "s = takeWhile p s @ strip_chars p s @ rev (takeWhile p (rev ?t))"
    unfolding strip_chars_def using 1 2 by metis
  then show ?thesis by blast
qed

lemma strip_chars_ends:
  assumes "strip_chars p s \<noteq> []"
  shows "\<not> p (hd (strip_chars p s)) \<and> \<not> p (last (strip_chars p s))"
proof -
  let ?t = "dropWhile p s"
  let ?u = "dropWhile p (rev ?t)"
  have r: "strip_chars p s = rev ?u" by (simp add: strip_chars_def)
  with assms have u: "?u \<noteq> []" by simp
  then have "\<not> p (hd ?u)" by (rule hd_dropWhile)
  then have l: "\<not> p (last (strip_chars p s))" using u r by (simp add: last_rev)
  have t: "?t \<noteq> []"
  proof
    assume a: "?t = []"
    have "?u = []" unfolding a by simp
    with u show False by blast
  qed
  then have ht: "\<not> p (hd ?t)" by (rule hd_dropWhile)
  have "rev ?u @ rev (takeWhile p (rev ?t)) = rev (takeWhile p (rev ?t) @ ?u)"
    by (simp only: rev_append)
  also have "\<dots> = rev (rev ?t)" by (simp only: takeWhile_dropWhile_id)
  also have "\<dots> = ?t" by simp
  finally have "?t = rev ?u @ rev (takeWhile p (rev ?t))" by simp
  moreover have "rev ?u \<noteq> []" using u by simp
  ultimately have "hd ?t = hd (rev ?u)" by (metis hd_append2)
  with ht r have "\<not> p (hd (strip_chars p s))" by simp
  with l show ?thesis by simp
qed

text \<open>
  Claim C10. Whatever the normalisation returns, the slug consists of word characters
  and hyphens only, holds no white space and no upper-case character, has no two
  hyphens next to each other, and neither starts nor ends with a hyphen or an
  underscore. The file-name prefix of the dispatcher is such a slug, so it has no
  upper-case character.
\<close>

theorem slugify_shape:
  "let r = slugify normalise v allow_unicode
   in (\<forall>c\<in>set r. is_word c \<or> c = CHR ''-'')
      \<and> (\<forall>c\<in>set r. \<not> is_space c)
      \<and> (\<forall>c\<in>set r. \<not> is_upper c)
      \<and> \<not> adjacent_dashes r
      \<and> (r \<noteq> [] \<longrightarrow> hd r \<noteq> CHR ''-'' \<and> hd r \<noteq> CHR ''_'' \<and> last r \<noteq> CHR ''-''
            \<and> last r \<noteq> CHR ''_'')
      \<and> (\<forall>c\<in>set (source_file_prefix normalise source_prefix source). \<not> is_upper c)"
proof -
  have shape: "(\<forall>c\<in>set r. is_word c \<or> c = CHR ''-'')
      \<and> (\<forall>c\<in>set r. \<not> is_space c)
      \<and> (\<forall>c\<in>set r. \<not> is_upper c)
      \<and> \<not> adjacent_dashes r
      \<and> (r \<noteq> [] \<longrightarrow> hd r \<noteq> CHR ''-'' \<and> hd r \<noteq> CHR ''_'' \<and> last r \<noteq> CHR ''-''
            \<and> last r \<noteq> CHR ''_'')"
    if r: "r = slugify normalise v allow_unicode" for r v allow_unicode
  proof -
    define w where "w = (if allow_unicode then normalise NFKC v
                   else filter (\<lambda>c. (of_char c :: nat) < 128) (normalise NFKD v))"
    define f where "f = filter (\<lambda>c. is_word c \<or> is_space c \<or> c = CHR ''-'') (str_lower w)"
    define p where "p = (\<lambda>c. c = CHR ''-'' \<or> c = CHR ''_'')"
    have r': "r = strip_chars p (collapse_dashes f)"
      by (simp add: r slugify_def Let_def w_def f_def p_def)
    obtain a b where d: "collapse_dashes f = a @ r @ b"
      using strip_chars_decomp [of "collapse_dashes f" p] r' by auto
    have sub: "set r \<subseteq> set (collapse_dashes f)" using d by (metis Un_upper1 Un_upper2 set_append subset_trans)
    have mem: "c = CHR ''-'' \<or> (c \<in> set f \<and> \<not> is_space c)" if "c \<in> set r" for c
      using that sub collapse_set by blast
    have fl: "\<not> is_upper c \<and> (is_word c \<or> is_space c \<or> c = CHR ''-'')" if "c \<in> set f" for c
      using that lower_not_upper by (auto simp: f_def str_lower_def)
    have 1: "\<forall>c\<in>set r. is_word c \<or> c = CHR ''-''" using mem fl by blast
    have 2: "\<forall>c\<in>set r. \<not> is_space c" using mem dash_not_space by blast
    have 3: "\<forall>c\<in>set r. \<not> is_upper c" using mem fl dash_not_space by blast
    have 4: "\<not> adjacent_dashes r"
      using collapse_no_adjacent [of f] adjacent_append [of r a b] d by auto
    have 5: "r \<noteq> [] \<longrightarrow> hd r \<noteq> CHR ''-'' \<and> hd r \<noteq> CHR ''_'' \<and> last r \<noteq> CHR ''-''
            \<and> last r \<noteq> CHR ''_''"
      using strip_chars_ends [of p "collapse_dashes f"] r' by (auto simp: p_def)
    from 1 2 3 4 5 show ?thesis by blast
  qed
  have a: "\<forall>c\<in>set (source_file_prefix normalise source_prefix source). \<not> is_upper c"
    using shape [of _ "source_prefix @ src_short_name source" True]
    by (simp add: source_file_prefix_def)
  show ?thesis using shape [of "slugify normalise v allow_unicode" v allow_unicode] a
    by (simp add: Let_def)
qed

lemma slug_example: "slugify (\<lambda>form s. s) ''01_My  File -- (Final).MP3_'' True = ''01_my-file-finalmp3''"
  by code_simp

theorem slugify_shape_witness:
  "slugify (\<lambda>form s. s) ''01_My  File -- (Final).MP3_'' True = ''01_my-file-finalmp3''
   \<and> list_all (\<lambda>c. is_word c \<or> c = CHR ''-'') ''01_my-file-finalmp3''
   \<and> list_all (\<lambda>c. \<not> is_space c) ''01_my-file-finalmp3''
   \<and> list_all (\<lambda>c. \<not> is_upper c) ''01_my-file-finalmp3''
   \<and> \<not> adjacent_dashes ''01_my-file-finalmp3''"
proof -
  note th = slugify_shape [of "\<lambda>form s. s" "''01_My  File -- (Final).MP3_''" True "''01_''"
      "\<lparr>src_full_name = ''My File.MP3'', src_short_name = ''My File''\<rparr>"]
  from th show ?thesis unfolding slug_example Let_def list_all_iff by blast
qed

subsection \<open>Highlight cues tile the segment\<close>

lemma tiles_append: "tiles a m xs \<Longrightarrow> tiles m b ys \<Longrightarrow> tiles a b (xs @ ys)"
  by (induction xs arbitrary: a) auto

lemma join_words_width: "0 \<le> W \<Longrightarrow> \<exists>t. join_words es (Some W) = Inr t"
  by (simp add: join_words_def no_width_def Let_def)

lemma highlight_loop_tiles:
  assumes "0 \<le> W" and "words_within cursor b ws"
  shows "fst (snd (highlight_loop (Some W) st tw i ws cursor)) = None
    \<and> tiles cursor (snd (snd (highlight_loop (Some W) st tw i ws cursor)))
         (fst (highlight_loop (Some W) st tw i ws cursor))
    \<and> snd (snd (highlight_loop (Some W) st tw i ws cursor)) \<le> b
    \<and> length ws \<le> length (fst (highlight_loop (Some W) st tw i ws cursor))
    \<and> length (fst (highlight_loop (Some W) st tw i ws cursor)) \<le> 2 * length ws"
  using assms(2)
proof (induction ws arbitrary: i cursor)
  case Nil
  then show ?case by simp
next
  case (Cons w ws)
  obtain t where t: "join_words (highlight_entries i tw) (Some W) = Inr t"
    using join_words_width [OF assms(1)] by blast
  let ?r = "highlight_loop (Some W) st tw (Suc i) ws (word_end w)"
  have w: "cursor \<le> word_start w" "word_start w \<le> word_end w"
    "words_within (word_end w) b ws" using Cons.prems by simp_all
  note ih = Cons.IH [OF w(3), of "Suc i"]
  have e: "highlight_loop (Some W) st tw i (w # ws) cursor =
      ((if cursor \<noteq> word_start w
        then [\<lparr>cue_start = cursor, cue_end = word_start w, cue_text = st\<rparr>] else [])
       @ [\<lparr>cue_start = word_start w, cue_end = word_end w, cue_text = t\<rparr>] @ fst ?r, snd ?r)"
    by (simp add: t Let_def)
  have tl: "tiles (word_start w) (snd (snd ?r))
      ([\<lparr>cue_start = word_start w, cue_end = word_end w, cue_text = t\<rparr>] @ fst ?r)"
    using ih w by simp
  have "tiles cursor (snd (snd ?r))
      ((if cursor \<noteq> word_start w
        then [\<lparr>cue_start = cursor, cue_end = word_start w, cue_text = st\<rparr>] else [])
       @ [\<lparr>cue_start = word_start w, cue_end = word_end w, cue_text = t\<rparr>] @ fst ?r)"
  proof (cases "cursor = word_start w")
    case True
    with tl show ?thesis by simp
  next
    case False
    with tl w show ?thesis by simp
  qed
  then show ?case unfolding e using ih by auto
qed

text \<open>
  Claim C1, as the code has it. For a segment with timed words that are in order and
  within the segment, with highlighting and a width that is not negative, the generator
  ends without an exception and the spans of its cues tile the segment. There are at
  least \<open>n\<close> and at most \<open>2 * n + 1\<close> cues, where \<open>n\<close> is the number of words walked:
  the words of the segment and, with a speaker label, the pseudo-word put in front.
\<close>

theorem highlight_cues_tile:
  assumes "seg_words segment \<noteq> []"
    and "words_within (seg_start segment) (seg_end segment) (seg_words segment)"
    and "0 \<le> W"
  shows "let r = segment_cues wrap (Some W) True segment;
             n = length (seg_words (fst r))
         in snd (snd r) = None
            \<and> tiles (seg_start segment) (seg_end segment) (fst (snd r))
            \<and> n \<le> length (fst (snd r))
            \<and> length (fst (snd r)) \<le> 2 * n + 1
            \<and> n = length (seg_words segment)
                  + (case seg_longest_speaker segment of None \<Rightarrow> 0 | Some speaker \<Rightarrow> 1)"
proof -
  define words where "words = (case seg_longest_speaker segment of
      None \<Rightarrow> seg_words segment
    | Some speaker \<Rightarrow> \<lparr>word_start = seg_start segment, word_end = seg_start segment,
                       word_text = ''('' @ speaker @ '')''\<rparr> # seg_words segment)"
  define st where "st = (case join_words (map Str (map word_text words)) (Some W) of
      Inr t \<Rightarrow> t | Inl e \<Rightarrow> [])"
  have jw: "join_words (map Str (map word_text words)) (Some W) = Inr st"
    using join_words_width [OF assms(3), of "map Str (map word_text words)"]
    by (auto simp: st_def)
  have ww: "words_within (seg_start segment) (seg_end segment) words"
    using assms(2) by (simp add: words_def split: option.splits)
  let ?h = "highlight_loop (Some W) st (map word_text words) 0 words (seg_start segment)"
  note hl = highlight_loop_tiles [OF assms(3) ww, of st "map word_text words" 0]
  have n: "length words = length (seg_words segment)
      + (case seg_longest_speaker segment of None \<Rightarrow> 0 | Some speaker \<Rightarrow> 1)"
    by (simp add: words_def split: option.splits)
  have r: "segment_cues wrap (Some W) True segment =
      (segment\<lparr>seg_words := words\<rparr>,
       fst ?h @ (if snd (snd ?h) \<noteq> seg_end segment
                 then [\<lparr>cue_start = snd (snd ?h), cue_end = seg_end segment, cue_text = st\<rparr>]
                 else []),
       None)"
    using assms(1) hl jw by (simp add: segment_cues_def Let_def words_def [symmetric])
  have t: "tiles (seg_start segment) (seg_end segment)
      (fst ?h @ (if snd (snd ?h) \<noteq> seg_end segment
                 then [\<lparr>cue_start = snd (snd ?h), cue_end = seg_end segment, cue_text = st\<rparr>]
                 else []))"
    using hl by (intro tiles_append [of _ "snd (snd ?h)"]) auto
  show ?thesis unfolding r Let_def using t hl n by auto
qed

text \<open>
  Claim C1 as stated fails. A word that starts with the segment and ends before it gives
  two cues, an even number. With a speaker label, one word that starts late and ends
  early gives four cues, more than twice the number of words of the segment plus one.
\<close>

theorem highlight_cues_odd_counterexample:
  "seg_words gap_segment \<noteq> []
   \<and> words_within (seg_start gap_segment) (seg_end gap_segment) (seg_words gap_segment)
   \<and> length (fst (snd (segment_cues textwrap_wrap (Some 80) True gap_segment))) = 2
   \<and> \<not> odd (2::nat)
   \<and> seg_words late_speaker_segment \<noteq> []
   \<and> words_within (seg_start late_speaker_segment) (seg_end late_speaker_segment)
        (seg_words late_speaker_segment)
   \<and> length (fst (snd (segment_cues textwrap_wrap (Some 80) True late_speaker_segment))) = 4
   \<and> \<not> 4 \<le> 2 * length (seg_words late_speaker_segment) + 1"
  by (simp add: gap_segment_def late_speaker_segment_def segment_cues_def join_words_def
      no_width_def Let_def)

theorem highlight_cues_tile_witness:
  "seg_words late_speaker_segment \<noteq> []
   \<and> words_within (seg_start late_speaker_segment) (seg_end late_speaker_segment)
        (seg_words late_speaker_segment)
   \<and> (0::int) \<le> 80
   \<and> map (\<lambda>c. (cue_start c, cue_end c))
        (fst (snd (segment_cues textwrap_wrap (Some 80) True late_speaker_segment)))
      = [(0, 0), (0, 1), (1, 2), (2, 3)]
   \<and> tiles 0 3 (fst (snd (segment_cues textwrap_wrap (Some 80) True late_speaker_segment)))"
proof -
  have a: "seg_words late_speaker_segment \<noteq> []" by (simp add: late_speaker_segment_def)
  have b: "words_within (seg_start late_speaker_segment) (seg_end late_speaker_segment)
        (seg_words late_speaker_segment)" by (simp add: late_speaker_segment_def)
  have c: "map (\<lambda>c. (cue_start c, cue_end c))
        (fst (snd (segment_cues textwrap_wrap (Some 80) True late_speaker_segment)))
      = [(0, 0), (0, 1), (1, 2), (2, 3)]"
    by (simp add: late_speaker_segment_def segment_cues_def join_words_def no_width_def Let_def)
  have s: "seg_start late_speaker_segment = 0" "seg_end late_speaker_segment = 3"
    by (simp_all add: late_speaker_segment_def)
  from highlight_cues_tile [OF a b, of 80 textwrap_wrap]
  have "tiles 0 3 (fst (snd (segment_cues textwrap_wrap (Some 80) True late_speaker_segment)))"
    by (simp add: Let_def s)
  with a b c show ?thesis by simp
qed

subsection \<open>Highlight cues keep the line breaks\<close>

lemma join_words_loop_layout:
  "join_words_loop W (map e xs) (map (\<lambda>grp. concat (map (\<lambda>x. entry_word (e x)) grp)) G)
      (concat (map (\<lambda>x. entry_word (e x)) cur)) n =
   (map (\<lambda>grp. concat (map (\<lambda>x. entry_word (e x)) grp))
        (fst (layout_loop (\<lambda>x. entry_length (e x)) W xs G cur n)),
    concat (map (\<lambda>x. entry_word (e x)) (snd (layout_loop (\<lambda>x. entry_length (e x)) W xs G cur n))))"
proof (induction xs arbitrary: G cur n)
  case Nil
  show ?case by simp
next
  case (Cons x xs)
  show ?case
  proof (cases "0 < n \<and> W < n + entry_length (e x)")
    case True
    have "join_words_loop W (map e (x # xs))
        (map (\<lambda>grp. concat (map (\<lambda>x. entry_word (e x)) grp)) G)
        (concat (map (\<lambda>x. entry_word (e x)) cur)) n
      = join_words_loop W (map e xs)
        (map (\<lambda>grp. concat (map (\<lambda>x. entry_word (e x)) grp)) (G @ [cur]))
        (concat (map (\<lambda>x. entry_word (e x)) [x])) (entry_length (e x))"
      using True by (simp add: Let_def)
    then show ?thesis using True Cons.IH [of "G @ [cur]" "[x]" "entry_length (e x)"]
      by simp
  next
    case False
    have "join_words_loop W (map e (x # xs))
        (map (\<lambda>grp. concat (map (\<lambda>x. entry_word (e x)) grp)) G)
        (concat (map (\<lambda>x. entry_word (e x)) cur)) n
      = join_words_loop W (map e xs)
        (map (\<lambda>grp. concat (map (\<lambda>x. entry_word (e x)) grp)) G)
        (concat (map (\<lambda>x. entry_word (e x)) (cur @ [x]))) (n + entry_length (e x))"
      using False by (auto simp: Let_def)
    then show ?thesis using False Cons.IH [of G "cur @ [x]" "n + entry_length (e x)"]
      by auto
  qed
qed

lemma join_words_layout:
  assumes "0 \<le> W"
  shows "join_words (map e xs) (Some W) =
    Inr (lines_text (\<lambda>x. entry_word (e x)) (layout (\<lambda>x. entry_length (e x)) W xs))"
  using assms join_words_loop_layout [of W e xs "[]" "[]" 0]
  by (simp add: join_words_def no_width_def Let_def lines_text_def layout_def)

lemma try_match_Some: "match_at j word = Some r \<Longrightarrow> try_match j word = Some r"
  by (cases j) simp_all

lemma highlight_word_line:
  assumes "NL \<notin> set word"
  shows "highlight_word word
         = takeWhile is_space word @ ''<u>'' @ dropWhile is_space word @ ''</u>''"
proof -
  let ?k = "length (takeWhile is_space word)"
  have d: "drop ?k word = dropWhile is_space word" by (simp add: dropWhile_eq_drop)
  have t: "take ?k word = takeWhile is_space word" by (simp add: takeWhile_eq_take [symmetric])
  have n: "\<forall>c\<in>set (dropWhile is_space word). c \<noteq> NL"
    using assms by (metis set_dropWhileD)
  then have b: "takeWhile (\<lambda>c. c \<noteq> NL) (dropWhile is_space word) = dropWhile is_space word"
    "dropWhile (\<lambda>c. c \<noteq> NL) (dropWhile is_space word) = []" by simp_all
  have "match_at ?k word
        = Some (takeWhile is_space word @ ''<u>'' @ dropWhile is_space word @ ''</u>'')"
    unfolding match_at_def Let_def d t b by simp
  then show ?thesis by (simp add: highlight_word_def try_match_Some)
qed

lemma map_snd_enum: "map (\<lambda>x. f (snd x)) (enumerate n xs) = map f xs"
  by (induction xs arbitrary: n) simp_all

lemma plain_entries: "map Str text_words = map (\<lambda>(j, w). Str w) (enumerate 0 text_words)"
  using map_snd_enum [of Str 0 text_words] by (simp add: case_prod_unfold)

text \<open>
  Claim C9, as the code has it. In the token list of the highlight cue of word \<open>i\<close>
  every token has the display length of the word without markup. With a width that is
  not negative, the text of the highlight cue and the plain text of the segment are
  therefore written from one and the same grouping of the tokens into lines; they
  differ in the highlighted word only. For a word without a line break the markup
  encloses what follows the leading white space.
\<close>

theorem highlight_keeps_line_breaks:
  assumes "0 \<le> W"
  shows "let g = layout (\<lambda>(j, w). int (length w)) W (enumerate 0 text_words)
     in map entry_length (highlight_entries i text_words) = map (\<lambda>w. int (length w)) text_words
        \<and> join_words (map Str text_words) (Some W) = Inr (lines_text (\<lambda>(j, w). w) g)
        \<and> join_words (highlight_entries i text_words) (Some W)
            = Inr (lines_text (\<lambda>(j, w). if j = i then highlight_word w else w) g)
        \<and> (NL \<notin> set word \<longrightarrow>
             highlight_word word
             = takeWhile is_space word @ ''<u>'' @ dropWhile is_space word @ ''</u>'')"
proof -
  have l: "map entry_length (highlight_entries i text_words) = map (\<lambda>w. int (length w)) text_words"
    using map_snd_enum [of "\<lambda>w. int (length w)" 0 text_words]
    by (simp add: highlight_entries_def case_prod_unfold comp_def)
  have p: "join_words (map Str text_words) (Some W)
      = Inr (lines_text (\<lambda>(j, w). w) (layout (\<lambda>(j, w). int (length w)) W (enumerate 0 text_words)))"
    using join_words_layout [OF assms, of "\<lambda>(j, w). Str w" "enumerate 0 text_words"]
    by (simp add: plain_entries case_prod_unfold)
  have h: "join_words (highlight_entries i text_words) (Some W)
      = Inr (lines_text (\<lambda>(j, w). if j = i then highlight_word w else w)
               (layout (\<lambda>(j, w). int (length w)) W (enumerate 0 text_words)))"
    using join_words_layout [OF assms,
        of "\<lambda>(j, word). Dict (if j = i then highlight_word word else word) (int (length word))"
           "enumerate 0 text_words"]
    by (simp add: highlight_entries_def case_prod_unfold)
  show ?thesis unfolding Let_def using l p h highlight_word_line by blast
qed

text \<open>
  Claim C9 as stated fails: the display length of the highlighted token is the length
  of the word, not the length of the word with its markup.
\<close>

theorem highlight_length_counterexample:
  "highlight_entries 0 ['' hi''] = [Dict '' <u>hi</u>'' 3]
   \<and> entry_length (Dict '' <u>hi</u>'' 3) \<noteq> int (length (entry_word (Dict '' <u>hi</u>'' 3)))"
  by code_simp

lemma wrap_example:
  "lines_text (\<lambda>(j, w). w)
     (layout (\<lambda>(j, w). int (length w)) 6 (enumerate 0 ['' aaa'', '' bbb'', '' c'']))
   = '' aaa'' @ [NL] @ '' bbb c''"
  "lines_text (\<lambda>(j, w). if j = 1 then highlight_word w else w)
     (layout (\<lambda>(j, w). int (length w)) 6 (enumerate 0 ['' aaa'', '' bbb'', '' c'']))
   = '' aaa'' @ [NL] @ '' <u>bbb</u> c''"
  by code_simp+

lemma no_newline: "NL \<notin> set '' bbb''"
  by (simp add: NL_def)

theorem highlight_keeps_line_breaks_witness:
  "(0::int) \<le> 6 \<and> NL \<notin> set '' bbb''
   \<and> join_words (map Str ['' aaa'', '' bbb'', '' c'']) (Some 6) = Inr ('' aaa'' @ [NL] @ '' bbb c'')
   \<and> join_words (highlight_entries 1 ['' aaa'', '' bbb'', '' c'']) (Some 6)
       = Inr ('' aaa'' @ [NL] @ '' <u>bbb</u> c'')
   \<and> highlight_word '' bbb'' = '' <u>bbb</u>''"
proof -
  have z: "(0::int) \<le> 6" by simp
  note th = highlight_keeps_line_breaks [OF z, of "['' aaa'', '' bbb'', '' c'']" 1 "'' bbb''"]
  have t: "takeWhile is_space '' bbb'' @ ''<u>'' @ dropWhile is_space '' bbb'' @ ''</u>''
      = '' <u>bbb</u>''" by code_simp
  from th show ?thesis unfolding Let_def wrap_example t using no_newline by simp
qed

end
